theory Spec2Isabelle
  imports Main "HOL-Library.Sublist"
begin

section \<open>Strings, numbers and regular expressions of the host language\<close>

text \<open>
  The checker builds every message by string concatenation, renders status codes and
  elapsed times in decimal, compares digests after \<open>toUpperCase\<close>, and classifies
  hosts and header values with regular expressions. This section gives those pieces of
  JavaScript: strings are \<open>string\<close>, the numbers that occur (status codes, milliseconds,
  counts) are \<open>nat\<close>.
\<close>

definition digit_char :: "nat \<Rightarrow> char" where
  "digit_char d = ''0123456789'' ! d"

fun string_of_nat :: "nat \<Rightarrow> string" where
  "string_of_nat n =
     (if n < 10 then [digit_char n]
      else string_of_nat (n div 10) @ [digit_char (n mod 10)])"

declare string_of_nat.simps [simp del]

definition toUpperCase_char :: "char \<Rightarrow> char" where
  "toUpperCase_char c =
     (case map_of (zip ''abcdefghijklmnopqrstuvwxyz'' ''ABCDEFGHIJKLMNOPQRSTUVWXYZ'') c of
        Some u \<Rightarrow> u
      | None \<Rightarrow> c)"

definition toLowerCase_char :: "char \<Rightarrow> char" where
  "toLowerCase_char c =
     (case map_of (zip ''ABCDEFGHIJKLMNOPQRSTUVWXYZ'' ''abcdefghijklmnopqrstuvwxyz'') c of
        Some l \<Rightarrow> l
      | None \<Rightarrow> c)"

definition toUpperCase :: "string \<Rightarrow> string" where
  "toUpperCase s = map toUpperCase_char s"

definition toLowerCase :: "string \<Rightarrow> string" where
  "toLowerCase s = map toLowerCase_char s"

text \<open>
  A JavaScript value used as a condition is truthy; for the optional strings of this
  program (attribute values, header values, query parameters) that means present and
  not empty.
\<close>

definition truthy :: "string option \<Rightarrow> bool" where
  "truthy v = (case v of None \<Rightarrow> False | Some x \<Rightarrow> x \<noteq> [])"

text \<open>
  The regular expressions of the source use anchors, literals, \<open>\d\<close>, bracket
  classes, \<open>?\<close> on single atoms, \<open>*\<close> on bracket classes, sequence and alternation.
  \<open>rx_ends ci r s i\<close> lists the positions at which a match of \<open>r\<close> that starts at
  position \<open>i\<close> of \<open>s\<close> can end; \<open>ci\<close> is the \<open>/i\<close> flag. \<open>rx_test\<close> is
  \<open>RegExp.prototype.test\<close>: a match may start anywhere.
\<close>

datatype cls = Digit | OneOf string | NoneOf string

datatype rx =
    Bol
  | Eol
  | Lit string
  | Cls cls
  | Opt rx
  | StarCls cls
  | Seq rx rx
  | Alt rx rx

fun cls_ok :: "cls \<Rightarrow> char \<Rightarrow> bool" where
  "cls_ok Digit c = (c \<in> set ''0123456789'')"
| "cls_ok (OneOf cs) c = (c \<in> set cs)"
| "cls_ok (NoneOf cs) c = (c \<notin> set cs)"

definition lit_eq :: "bool \<Rightarrow> string \<Rightarrow> string \<Rightarrow> bool" where
  "lit_eq ci a b = (if ci then toUpperCase a = toUpperCase b else a = b)"

fun rx_ends :: "bool \<Rightarrow> rx \<Rightarrow> string \<Rightarrow> nat \<Rightarrow> nat list" where
  "rx_ends ci Bol s i = (if i = 0 then [i] else [])"
| "rx_ends ci Eol s i = (if i = length s then [i] else [])"
| "rx_ends ci (Lit l) s i =
     (if lit_eq ci (take (length l) (drop i s)) l then [i + length l] else [])"
| "rx_ends ci (Cls c) s i =
     (case drop i s of [] \<Rightarrow> [] | x # _ \<Rightarrow> if cls_ok c x then [Suc i] else [])"
| "rx_ends ci (Opt r) s i = rx_ends ci r s i @ [i]"
| "rx_ends ci (StarCls c) s i =
     map (\<lambda>k. i + k) (rev [0..<Suc (length (takeWhile (cls_ok c) (drop i s)))])"
| "rx_ends ci (Seq a b) s i = concat (map (rx_ends ci b s) (rx_ends ci a s i))"
| "rx_ends ci (Alt a b) s i = rx_ends ci a s i @ rx_ends ci b s i"

definition rx_test :: "bool \<Rightarrow> rx \<Rightarrow> string \<Rightarrow> bool" where
  "rx_test ci r s = list_ex (\<lambda>i. rx_ends ci r s i \<noteq> []) [0..<Suc (length s)]"

fun seqs :: "rx list \<Rightarrow> rx" where
  "seqs [] = Lit []"
| "seqs [r] = r"
| "seqs (r # rs) = Seq r (seqs rs)"

fun alts :: "rx list \<Rightarrow> rx" where
  "alts [] = Cls (OneOf [])"
| "alts [r] = r"
| "alts (r # rs) = Alt r (alts rs)"

text \<open>
  \<open>/^(localhost)|(127\.\d\d?\d?\.\d\d?\d?\.\d\d?\d?)|(\[[0\:]*\:[0\:]*\:0?0?0?1\])$/i\<close>,
  as the source writes it: alternation binds weakest, so \<open>^\<close> belongs to the first
  alternative only and \<open>$\<close> to the last only.
\<close>

definition octet :: rx where
  "octet = seqs [Cls Digit, Opt (Cls Digit), Opt (Cls Digit)]"

definition localhost :: rx where
  "localhost =
     alts
      [Seq Bol (Lit ''localhost''),
       seqs [Lit ''127.'', octet, Lit ''.'', octet, Lit ''.'', octet],
       seqs [Lit ''['', StarCls (OneOf ''0:''), Lit '':'', StarCls (OneOf ''0:''), Lit '':'',
             Opt (Lit ''0''), Opt (Lit ''0''), Opt (Lit ''0''), Lit ''1'', Lit '']'', Eol]]"

text \<open>The header patterns of \<open>testPage\<close>.\<close>

definition cacheControl_vocabulary :: rx where
  "cacheControl_vocabulary =
     alts (map Lit
      [''max-age'', ''max-stale'', ''min-fresh'', ''must-revalidate'', ''no-cache'',
       ''no-store'', ''no-transform'', ''only-if-cached'', ''private'', ''proxy-revalidate'',
       ''public'', ''s-maxage''])"

definition etag_pattern :: rx where
  "etag_pattern =
     seqs [Bol, Opt (Lit ''W/''), Lit [CHR 0x22], StarCls (NoneOf [CHR 0x22]),
           Lit [CHR 0x22], Eol]"

definition not_cached_pattern :: rx where
  "not_cached_pattern = Alt (Lit ''no-cache'') (Lit ''max-age=0'')"

definition contentEncoding_pattern :: rx where
  "contentEncoding_pattern = seqs [Bol, Alt (Lit ''deflate'') (Lit ''gzip''), Eol]"


section \<open>Options, collaborators and state\<close>

text \<open>
  The options after normalisation (every flag is coerced to a boolean by the source, so a
  \<open>bool\<close> field is exact). \<open>maxResponseTime\<close> is a number or absent. The
  \<open>userAgent\<close> option only sets a default request header and is left out.
\<close>

record options =
  pageUrls :: "string list"
  checkLinks :: bool
  onlySameDomain :: bool
  noRedirects :: bool
  noLocalLinks :: bool
  noEmptyFragments :: bool
  queryHashes :: bool
  linksToIgnore :: "string list"
  checkXhtml :: bool
  checkCaching :: bool
  checkCompression :: bool
  maxResponseTime :: "nat option"
  summary :: bool

datatype verb = GET | HEAD

datatype algorithm = Sha1 | Md5 | Crc32

record response =
  statusCode :: nat
  headers :: "string \<Rightarrow> string option"
  href :: string

text \<open>
  What a request comes to: an \<open>error\<close> event with its message, or a response and the
  content that was streamed, each with the milliseconds \<open>Date.now() - start\<close> read
  by the handler.
\<close>

datatype reply = Failed nat string | Responded nat response string

type_synonym element = "string \<times> (string \<times> string) list"

text \<open>
  The packages the program requires are parameters: the functions of Node's \<open>url\<close>
  that the source calls (\<open>url.parse(u).protocol\<close>, \<open>.host\<close>, \<open>.hostname\<close>,
  \<open>.hash\<close>, \<open>.path\<close>, \<open>.pathname\<close>, \<open>url.parse(u, true).query[name]\<close>,
  \<open>url.format\<close> of the parsed link with \<open>hash = null\<close>, \<open>url.resolve\<close>, and
  the re-encoded form \<open>fixNonAsciiLink\<close> builds with \<open>decodeURI\<close>, \<open>encodeURI\<close> and
  \<open>url.format\<close>); the \<open>request\<close> package and the file system, which may answer
  differently each time and so take the number of requests made before; the digest of a
  content under an algorithm (\<open>crypto\<close>, \<open>crc-hash\<close>); the elements \<open>cheerio\<close>
  finds in a body, in document order, each a tag name with its attributes; and the
  error messages \<open>sax\<close> reports for a body in strict mode. A query parameter
  that occurs once in the link is a string, one that occurs several times is the array of
  its values.
\<close>

datatype param = Once string | Many "string list"

record env =
  url_protocol :: "string \<Rightarrow> string option"
  url_host :: "string \<Rightarrow> string option"
  url_hostname :: "string \<Rightarrow> string option"
  url_hash :: "string \<Rightarrow> string option"
  url_path :: "string \<Rightarrow> string option"
  url_pathname :: "string \<Rightarrow> string"
  url_query :: "string \<Rightarrow> string \<Rightarrow> param option"
  url_format_without_hash :: "string \<Rightarrow> string"
  url_resolve :: "string \<Rightarrow> string \<Rightarrow> string"
  url_reencoded :: "string \<Rightarrow> string"
  request :: "nat \<Rightarrow> verb \<Rightarrow> string \<Rightarrow> bool \<Rightarrow> reply"
  fs_read :: "nat \<Rightarrow> string \<Rightarrow> nat \<times> (string + string)"
  createHash :: "algorithm \<Rightarrow> string \<Rightarrow> string"
  cheerio_load :: "string \<Rightarrow> element list"
  sax_errors :: "string \<Rightarrow> string list"

text \<open>
  The queue holds closures; a closure is given by the function that made it and the
  arguments it captured.
\<close>

datatype task = TestPage string | TestLink string string | Finish

datatype line = HostLog string | HostError string

text \<open>
  The module's variables \<open>pendingCallbacks\<close>, \<open>issues\<close> and \<open>testedLinks\<close>; what
  the program did to its surroundings: the lines given to \<open>host.log\<close> and
  \<open>host.error\<close> in order, the requests made (method and URI), the calls of
  \<open>done\<close>; an exception that escaped; and, as a history variable, the callbacks
  \<open>next\<close> has invoked.
\<close>

record state =
  pendingCallbacks :: "task list"
  issues :: "(string \<times> string) list"
  testedLinks :: "string list"
  written :: "line list"
  requests :: "(verb \<times> string) list"
  done_calls :: "(string option \<times> nat) list"
  thrown :: "string option"
  invoked :: "task list"

definition host_log :: "string \<Rightarrow> state \<Rightarrow> state" where
  "host_log message s = s\<lparr>written := written s @ [HostLog message]\<rparr>"

definition host_error :: "string \<Rightarrow> state \<Rightarrow> state" where
  "host_error message s = s\<lparr>written := written s @ [HostError message]\<rparr>"

definition throw :: "string \<Rightarrow> state \<Rightarrow> state" where
  "throw message s = s\<lparr>thrown := Some message\<rparr>"

section \<open>The checker\<close>

definition logPageError :: "string \<Rightarrow> string \<Rightarrow> state \<Rightarrow> state" where
  "logPageError page message s =
     (host_error message s)\<lparr>issues := issues s @ [(page, message)]\<rparr>"

definition isLinkIgnored :: "options \<Rightarrow> string \<Rightarrow> bool" where
  "isLinkIgnored opts link = list_ex (\<lambda>linkToIgnore. linkToIgnore = link) (linksToIgnore opts)"

definition is_ascii :: "char \<Rightarrow> bool" where
  "is_ascii c = ((of_char c :: nat) \<le> 127)"

definition fixNonAsciiLink :: "env \<Rightarrow> string \<Rightarrow> string" where
  "fixNonAsciiLink env link =
     (if list_all is_ascii (case url_path env link of None \<Rightarrow> ''null'' | Some p \<Rightarrow> p)
      then link
      else url_reencoded env link)"

datatype requester = RequestFile | Request

definition requestFor :: "env \<Rightarrow> string \<Rightarrow> requester" where
  "requestFor env uri = (if url_protocol env uri = Some ''file:'' then RequestFile else Request)"

subsection \<open>requestFile.js\<close>

definition ensureFileProtocol :: "env \<Rightarrow> string \<Rightarrow> string option" where
  "ensureFileProtocol env uri =
     (if url_protocol env uri \<noteq> Some ''file:''
      then Some (''URI does not use the '' @ [CHR 0x27] @ ''file:'' @ [CHR 0x27] @
                 '' protocol: '' @ uri)
      else None)"

definition responseFor :: "string \<Rightarrow> response" where
  "responseFor uri = \<lparr>statusCode = 200, headers = (\<lambda>name. None), href = uri\<rparr>"

text \<open>
  Both entry points of the file requester check the protocol (an exception, \<open>Inl\<close>)
  and then read the file at the URI's path name: a read error is the \<open>error\<close> event or
  the callback's \<open>err\<close>, anything else the response of \<open>responseFor\<close>.
\<close>

definition requestFile :: "env \<Rightarrow> nat \<Rightarrow> string \<Rightarrow> string + reply" where
  "requestFile env n uri =
     (case ensureFileProtocol env uri of
        Some message \<Rightarrow> Inl message
      | None \<Rightarrow>
          Inr (case fs_read env n (url_pathname env uri) of
                 (elapsed, Inl message) \<Rightarrow> Failed elapsed message
               | (elapsed, Inr content) \<Rightarrow> Responded elapsed (responseFor uri) content))"

definition requestFile_get :: "env \<Rightarrow> nat \<Rightarrow> string \<Rightarrow> string + reply" where
  "requestFile_get env n uri =
     (case ensureFileProtocol env uri of
        Some message \<Rightarrow> Inl message
      | None \<Rightarrow>
          Inr (case fs_read env n (url_pathname env uri) of
                 (elapsed, Inl message) \<Rightarrow> Failed elapsed message
               | (elapsed, Inr content) \<Rightarrow> Responded elapsed (responseFor uri) content))"

subsection \<open>testLink\<close>

text \<open>
  Lines 93 to 106, run when \<open>retryWithGet\<close> is not set: the warning for an empty
  fragment, then the look-up of the link without its hash in \<open>testedLinks\<close>. The
  result says whether the callback has returned (\<open>True\<close>: the link was visited).
\<close>

definition claimLink :: "env \<Rightarrow> options \<Rightarrow> string \<Rightarrow> string \<Rightarrow> state \<Rightarrow> bool \<times> state" where
  "claimLink env opts page link s =
     (let s1 = (if noEmptyFragments opts \<and> url_hash env link = Some ''#''
                then logPageError page (''Empty fragment: '' @ link) s
                else s);
          noHashLink = url_format_without_hash env link
      in if noHashLink \<in> set (testedLinks s1)
         then (True, host_log (''Visited link: '' @ link) s1)
         else (False, s1\<lparr>testedLinks := testedLinks s1 @ [noHashLink]\<rparr>))"

text \<open>
  Lines 109 to 124: the expected digest and its algorithm, if any. A parameter counts
  when its value is truthy: a string that is not empty, or an array.
\<close>

definition truthy_param :: "param option \<Rightarrow> bool" where
  "truthy_param v = (case v of None \<Rightarrow> False | Some (Once x) \<Rightarrow> x \<noteq> [] | Some (Many xs) \<Rightarrow> True)"

definition linkHash :: "env \<Rightarrow> options \<Rightarrow> string \<Rightarrow> (param \<times> algorithm) option" where
  "linkHash env opts link =
     (if queryHashes opts then
        (if truthy_param (url_query env link ''sha1'')
         then map_option (\<lambda>v. (v, Sha1)) (url_query env link ''sha1'')
         else if truthy_param (url_query env link ''md5'')
         then map_option (\<lambda>v. (v, Md5)) (url_query env link ''md5'')
         else if truthy_param (url_query env link ''crc32'')
         then map_option (\<lambda>v. (v, Crc32)) (url_query env link ''crc32'')
         else None)
      else None)"

definition useGetRequest :: "options \<Rightarrow> bool \<Rightarrow> bool" where
  "useGetRequest opts retryWithGet = (retryWithGet \<or> queryHashes opts)"

definition method_of :: "options \<Rightarrow> bool \<Rightarrow> verb" where
  "method_of opts retryWithGet = (if useGetRequest opts retryWithGet then GET else HEAD)"

definition is_2xx :: "response \<Rightarrow> bool" where
  "is_2xx res = (200 \<le> statusCode res \<and> statusCode res < 300)"

definition is_3xx :: "response \<Rightarrow> bool" where
  "is_3xx res = (300 \<le> statusCode res \<and> statusCode res < 400)"

definition ms :: "nat \<Rightarrow> string" where
  "ms elapsed = '' ('' @ string_of_nat elapsed @ ''ms)''"

text \<open>The handler of \<open>error\<close> (lines 131 to 135).\<close>

definition onError :: "string \<Rightarrow> string \<Rightarrow> nat \<Rightarrow> string \<Rightarrow> state \<Rightarrow> state" where
  "onError page link elapsed message s =
     logPageError page (''Link error ('' @ message @ ''): '' @ link @ ms elapsed) s"

text \<open>
  The handler of \<open>end\<close> (lines 140 to 165). It either ends with \<open>callback()\<close>
  or an exception (\<open>Inl\<close>) or hands over to \<open>testLink(page, link, true)\<close>
  (\<open>Inr\<close>). At line 147 \<open>linkHash.toUpperCase()\<close> is called on the value of the
  parameter: an array has no such method and the call throws.
\<close>

definition location_or_marker :: "response \<Rightarrow> string" where
  "location_or_marker res =
     (case headers res ''location'' of
        None \<Rightarrow> ''[Missing Location header]''
      | Some l \<Rightarrow> if l \<noteq> [] then l else ''[Missing Location header]'')"

definition onEnd ::
  "env \<Rightarrow> options \<Rightarrow> string \<Rightarrow> string \<Rightarrow> bool \<Rightarrow> nat \<Rightarrow> response \<Rightarrow> string \<Rightarrow> state \<Rightarrow> state + state"
where
  "onEnd env opts page link retryWithGet elapsed res content s =
     (if is_2xx res then
        (let s1 = host_log (''Link: '' @ link @ ms elapsed) s
         in Inl (case linkHash env opts link of
                   None \<Rightarrow> s1
                 | Some (Once expected, algorithm) \<Rightarrow>
                     (let contentHash = createHash env algorithm content
                      in if toUpperCase expected = toUpperCase contentHash
                         then host_log (''Hash: '' @ link) s1
                         else logPageError page
                                (''Hash error ('' @ toLowerCase contentHash @ ''): '' @ link) s1)
                 | Some (Many xs, algorithm) \<Rightarrow>
                     throw ''TypeError: linkHash.toUpperCase is not a function'' s1))
      else if useGetRequest opts retryWithGet then
        Inl (if is_3xx res \<and> noRedirects opts
             then logPageError page
                    (''Redirected link ('' @ string_of_nat (statusCode res) @ ''): '' @ link @
                     '' -> '' @ location_or_marker res @ ms elapsed) s
             else logPageError page
                    (''Bad link ('' @ string_of_nat (statusCode res) @ ''): '' @ link @
                     ms elapsed) s)
      else Inr s)"

definition onReply ::
  "env \<Rightarrow> options \<Rightarrow> string \<Rightarrow> string \<Rightarrow> bool \<Rightarrow> reply \<Rightarrow> state \<Rightarrow> state + state"
where
  "onReply env opts page link retryWithGet r s =
     (case r of
        Failed elapsed message \<Rightarrow> Inl (onError page link elapsed message s)
      | Responded elapsed res content \<Rightarrow>
          onEnd env opts page link retryWithGet elapsed res content s)"

text \<open>
  Lines 171 to 176, run as soon as the request object exists: \<open>req.uri.host\<close> is the
  host of the URI given to \<open>request\<close> (the string \<open>null\<close> is tested when it has none).
\<close>

definition localLinkCheck :: "env \<Rightarrow> options \<Rightarrow> string \<Rightarrow> string \<Rightarrow> string \<Rightarrow> state \<Rightarrow> state" where
  "localLinkCheck env opts page link uri s =
     (if noLocalLinks opts \<and>
         rx_test True localhost (case url_host env uri of None \<Rightarrow> ''null'' | Some h \<Rightarrow> h)
      then logPageError page (''Local link: '' @ link) s
      else s)"

text \<open>
  Lines 107 to 176, once through. The request is made with the method and the redirect
  policy of line 127 and recorded; the local-link check runs before any event of the
  request is handled. The stream that \<open>requestFile\<close> returns has \<open>abort\<close> added
  and nothing else, so with \<open>noLocalLinks\<close> the read of \<open>req.uri.host\<close> throws for
  a \<open>file:\<close> link. The result is \<open>Inl\<close> when the pass ended (with
  \<open>callback()\<close> or an exception) and \<open>Inr\<close> when it handed over to
  \<open>testLink(page, link, true)\<close>.
\<close>

definition attemptLink ::
  "env \<Rightarrow> options \<Rightarrow> string \<Rightarrow> string \<Rightarrow> bool \<Rightarrow> state \<Rightarrow> state + state"
where
  "attemptLink env opts page link retryWithGet s =
     (let uri = fixNonAsciiLink env link;
          n = length (requests s);
          s1 = s\<lparr>requests := requests s @ [(method_of opts retryWithGet, uri)]\<rparr>
      in case requestFor env link of
           RequestFile \<Rightarrow>
             (case requestFile env n uri of
                Inl message \<Rightarrow> Inl (throw message s)
              | Inr r \<Rightarrow>
                  if noLocalLinks opts
                  then Inl (throw ''TypeError: Cannot read property host of undefined'' s1)
                  else onReply env opts page link retryWithGet r s1)
         | Request \<Rightarrow>
             onReply env opts page link retryWithGet
               (request env n (method_of opts retryWithGet) uri (\<not> noRedirects opts))
               (localLinkCheck env opts page link uri s1))"

lemma onEnd_retry:
  "onEnd env opts page link retryWithGet elapsed res content s = Inr s' \<Longrightarrow> \<not> retryWithGet"
  by (auto simp: onEnd_def useGetRequest_def Let_def
      split: if_splits option.splits prod.splits param.splits)

lemma onReply_retry:
  "onReply env opts page link retryWithGet r s = Inr s' \<Longrightarrow> \<not> retryWithGet"
  by (auto simp: onReply_def split: reply.splits dest: onEnd_retry)

lemma attemptLink_retry:
  "attemptLink env opts page link retryWithGet s = Inr s' \<Longrightarrow> \<not> retryWithGet"
  by (auto simp: attemptLink_def Let_def split: requester.splits sum.splits if_splits
      dest: onReply_retry)

text \<open>
  With \<open>retryWithGet\<close> set, \<open>testLink\<close> skips lines 93 to 106, so the retry is
  the same pass again with the flag set.
\<close>

function requestLink :: "env \<Rightarrow> options \<Rightarrow> string \<Rightarrow> string \<Rightarrow> bool \<Rightarrow> state \<Rightarrow> state" where
  "requestLink env opts page link retryWithGet s =
     (case attemptLink env opts page link retryWithGet s of
        Inl s' \<Rightarrow> s'
      | Inr s' \<Rightarrow> requestLink env opts page link True s')"
  by pat_completeness auto

termination requestLink
  apply (relation "measure (\<lambda>(env, opts, page, link, retryWithGet, s). if retryWithGet then 0 else 1)")
  apply (auto dest: attemptLink_retry)
  done

declare requestLink.simps [simp del]

definition testLink :: "env \<Rightarrow> options \<Rightarrow> string \<Rightarrow> string \<Rightarrow> bool \<Rightarrow> state \<Rightarrow> state" where
  "testLink env opts page link retryWithGet s =
     (if \<not> retryWithGet then
        (case claimLink env opts page link s of
           (True, s1) \<Rightarrow> s1
         | (False, s1) \<Rightarrow> requestLink env opts page link retryWithGet s1)
      else requestLink env opts page link retryWithGet s)"

subsection \<open>addLinks\<close>

definition splice :: "nat \<Rightarrow> 'a \<Rightarrow> 'a list \<Rightarrow> 'a list" where
  "splice index x xs = take index xs @ x # drop index xs"

definition link_wanted :: "env \<Rightarrow> options \<Rightarrow> string \<Rightarrow> string \<Rightarrow> bool" where
  "link_wanted env opts page resolvedLink =
     ((url_protocol env resolvedLink = Some ''http:'' \<or>
       url_protocol env resolvedLink = Some ''https:'' \<or>
       url_protocol env resolvedLink = Some ''file:'') \<and>
      (\<not> onlySameDomain opts \<or> url_hostname env resolvedLink = url_hostname env page) \<and>
      \<not> isLinkIgnored opts resolvedLink)"

text \<open>The body of \<open>each\<close>, over the elements selected, with \<open>index\<close> and the queue.\<close>

fun addLinks_each ::
  "env \<Rightarrow> options \<Rightarrow> string \<Rightarrow> string \<Rightarrow> element list \<Rightarrow> nat \<Rightarrow> state \<Rightarrow> nat \<times> state"
where
  "addLinks_each env opts attribute page [] index s = (index, s)"
| "addLinks_each env opts attribute page (e # es) index s =
     (if truthy (map_of (snd e) attribute) \<and>
         link_wanted env opts page
           (url_resolve env page (case map_of (snd e) attribute of None \<Rightarrow> [] | Some l \<Rightarrow> l))
      then addLinks_each env opts attribute page es (Suc index)
             (s\<lparr>pendingCallbacks :=
                  splice index
                    (TestLink page
                       (url_resolve env page
                          (case map_of (snd e) attribute of None \<Rightarrow> [] | Some l \<Rightarrow> l)))
                    (pendingCallbacks s)\<rparr>)
      else addLinks_each env opts attribute page es index s)"

definition addLinks ::
  "env \<Rightarrow> options \<Rightarrow> element list \<Rightarrow> string \<Rightarrow> string \<Rightarrow> string \<Rightarrow> nat \<Rightarrow> state \<Rightarrow> nat \<times> state"
where
  "addLinks env opts document element attribute page index s =
     addLinks_each env opts attribute page (filter (\<lambda>e. fst e = element) document) index s"

subsection \<open>testPage\<close>

definition link_pairs :: "(string \<times> string) list" where
  "link_pairs =
     [(''a'', ''href''), (''area'', ''href''), (''audio'', ''src''), (''embed'', ''src''),
      (''iframe'', ''src''), (''img'', ''src''), (''input'', ''src''), (''link'', ''href''),
      (''object'', ''data''), (''script'', ''src''), (''source'', ''src''),
      (''track'', ''src''), (''video'', ''src'')]"

definition checkLinks_block :: "env \<Rightarrow> options \<Rightarrow> string \<Rightarrow> string \<Rightarrow> state \<Rightarrow> state" where
  "checkLinks_block env opts page content s =
     snd (fold (\<lambda>(element, attribute) (index, s').
                  addLinks env opts (cheerio_load env content) element attribute page index s')
            link_pairs (0, s))"

definition replace_newlines :: "string \<Rightarrow> string" where
  "replace_newlines message = concat (map (\<lambda>c. if c = CHR 0x0A then '', '' else [c]) message)"

definition checkXhtml_block :: "env \<Rightarrow> string \<Rightarrow> string \<Rightarrow> state \<Rightarrow> state" where
  "checkXhtml_block env page content s =
     fold (\<lambda>message. logPageError page (replace_newlines message)) (sax_errors env content) s"

definition maxResponseTime_block :: "options \<Rightarrow> string \<Rightarrow> nat \<Rightarrow> state \<Rightarrow> state" where
  "maxResponseTime_block opts page elapsed s =
     (case maxResponseTime opts of
        None \<Rightarrow> s
      | Some limit \<Rightarrow>
          if limit \<noteq> 0 \<and> limit < elapsed
          then logPageError page
                 (''Page response took more than '' @ string_of_nat limit @ ''ms to complete'') s
          else s)"

definition cacheControl_check :: "string \<Rightarrow> response \<Rightarrow> state \<Rightarrow> state" where
  "cacheControl_check page res s =
     (case headers res ''cache-control'' of
        None \<Rightarrow> logPageError page ''Missing Cache-Control header in response'' s
      | Some cacheControl \<Rightarrow>
          if cacheControl \<noteq> [] then
            (if \<not> rx_test False cacheControl_vocabulary cacheControl
             then logPageError page
                    (''Invalid Cache-Control header in response: '' @ cacheControl) s
             else s)
          else logPageError page ''Missing Cache-Control header in response'' s)"

definition etag_check :: "string \<Rightarrow> response \<Rightarrow> state \<Rightarrow> state" where
  "etag_check page res s =
     (if truthy (headers res ''etag'') then
        (case headers res ''etag'' of
           None \<Rightarrow> s
         | Some etag \<Rightarrow>
             if \<not> rx_test False etag_pattern etag
             then logPageError page (''Invalid ETag header in response: '' @ etag) s
             else s)
      else if \<not> truthy (headers res ''cache-control'') \<or>
              \<not> rx_test False not_cached_pattern
                   (case headers res ''cache-control'' of None \<Rightarrow> [] | Some c \<Rightarrow> c)
      then logPageError page ''Missing ETag header in response'' s
      else s)"

definition checkCaching_block :: "string \<Rightarrow> response \<Rightarrow> state \<Rightarrow> state" where
  "checkCaching_block page res s = etag_check page res (cacheControl_check page res s)"

definition checkCompression_block :: "string \<Rightarrow> response \<Rightarrow> state \<Rightarrow> state" where
  "checkCompression_block page res s =
     (case headers res ''content-encoding'' of
        None \<Rightarrow> logPageError page ''Missing Content-Encoding header in response'' s
      | Some contentEncoding \<Rightarrow>
          if contentEncoding \<noteq> [] then
            (if \<not> rx_test False contentEncoding_pattern contentEncoding
             then logPageError page
                    (''Invalid Content-Encoding header in response: '' @ contentEncoding) s
             else s)
          else logPageError page ''Missing Content-Encoding header in response'' s)"

text \<open>
  The callback given to \<open>get\<close> (lines 205 to 276). \<open>logError\<close> was bound to the page
  as queued; the links are queued under the page as updated after a redirect.
\<close>

definition onPage :: "env \<Rightarrow> options \<Rightarrow> string \<Rightarrow> reply \<Rightarrow> state \<Rightarrow> state" where
  "onPage env opts page r s =
     (case r of
        Failed elapsed message \<Rightarrow>
          logPageError page (''Page error ('' @ message @ ''): '' @ page @ ms elapsed) s
      | Responded elapsed res content \<Rightarrow>
          if statusCode res < 200 \<or> 300 \<le> statusCode res then
            logPageError page
              (''Bad page ('' @ string_of_nat (statusCode res) @ ''): '' @ page @ ms elapsed) s
          else
            (let s1 = (if page = href res
                       then host_log (''Page: '' @ page @ ms elapsed) s
                       else host_log (''Page: '' @ page @ '' -> '' @ href res @ ms elapsed) s);
                 s2 = (if checkLinks opts then checkLinks_block env opts (href res) content s1
                       else s1);
                 s3 = (if checkXhtml opts then checkXhtml_block env page content s2 else s2);
                 s4 = maxResponseTime_block opts page elapsed s3;
                 s5 = (if checkCaching opts then checkCaching_block page res s4 else s4)
             in if checkCompression opts then checkCompression_block page res s5 else s5))"

definition testPage :: "env \<Rightarrow> options \<Rightarrow> string \<Rightarrow> state \<Rightarrow> state" where
  "testPage env opts page s =
     (let uri = fixNonAsciiLink env page;
          n = length (requests s);
          s1 = s\<lparr>requests := requests s @ [(GET, uri)]\<rparr>
      in case requestFor env page of
           RequestFile \<Rightarrow>
             (case requestFile_get env n uri of
                Inl message \<Rightarrow> throw message s
              | Inr r \<Rightarrow> onPage env opts page r s1)
         | Request \<Rightarrow> onPage env opts page (request env n GET uri True) s1)"

subsection \<open>The queue\<close>

definition newline :: char where
  "newline = CHR 0x0A"

fun summary_lines :: "string option \<Rightarrow> (string \<times> string) list \<Rightarrow> string" where
  "summary_lines currentPage [] = []"
| "summary_lines currentPage ((page, message) # rest) =
     (if currentPage \<noteq> Some page then '' '' @ page @ [newline] else []) @
     ''  '' @ message @ [newline] @ summary_lines (Some page) rest"

text \<open>The last callback queued (lines 360 to 382); it calls \<open>done\<close> and never \<open>next\<close>.\<close>

definition finish :: "options \<Rightarrow> state \<Rightarrow> state" where
  "finish opts s =
     (let issueCount = length (issues s)
      in if issueCount \<noteq> 0 then
           (let s1 = (if summary opts
                      then host_error
                             (''Summary of issues:'' @ [newline] @ summary_lines None (issues s)) s
                      else s)
            in s1\<lparr>done_calls := done_calls s1 @
                     [(Some (string_of_nat issueCount @ '' issue'' @
                             (if issueCount > 1 then ''s'' else []) @ ''.'' @
                             (if summary opts then []
                              else '' (Set options.summary for a summary.)'')),
                       issueCount)]\<rparr>)
         else s\<lparr>done_calls := done_calls s @ [(None, issueCount)]\<rparr>)"

text \<open>
  \<open>next\<close> (lines 385 to 388) shifts the queue and calls what it got with itself as
  the callback; a check calls it back when it has ended, the last callback never does.
  \<open>shift\<close> on an empty queue gives \<open>undefined\<close>, and calling that throws. An
  exception that escapes a callback ends the run.
\<close>

definition run_task :: "env \<Rightarrow> options \<Rightarrow> task \<Rightarrow> state \<Rightarrow> state" where
  "run_task env opts callback s =
     (case callback of
        TestPage page \<Rightarrow> testPage env opts page s
      | TestLink page link \<Rightarrow> testLink env opts page link False s
      | Finish \<Rightarrow> finish opts s)"

section \<open>Frame properties\<close>

lemma host_log_sel [simp]:
  "pendingCallbacks (host_log m s) = pendingCallbacks s"
  "issues (host_log m s) = issues s"
  "testedLinks (host_log m s) = testedLinks s"
  "written (host_log m s) = written s @ [HostLog m]"
  "requests (host_log m s) = requests s"
  "done_calls (host_log m s) = done_calls s"
  "thrown (host_log m s) = thrown s"
  "invoked (host_log m s) = invoked s"
  by (simp_all add: host_log_def)

lemma host_error_sel [simp]:
  "pendingCallbacks (host_error m s) = pendingCallbacks s"
  "issues (host_error m s) = issues s"
  "testedLinks (host_error m s) = testedLinks s"
  "written (host_error m s) = written s @ [HostError m]"
  "requests (host_error m s) = requests s"
  "done_calls (host_error m s) = done_calls s"
  "thrown (host_error m s) = thrown s"
  "invoked (host_error m s) = invoked s"
  by (simp_all add: host_error_def)

lemma logPageError_sel [simp]:
  "pendingCallbacks (logPageError p m s) = pendingCallbacks s"
  "issues (logPageError p m s) = issues s @ [(p, m)]"
  "testedLinks (logPageError p m s) = testedLinks s"
  "written (logPageError p m s) = written s @ [HostError m]"
  "requests (logPageError p m s) = requests s"
  "done_calls (logPageError p m s) = done_calls s"
  "thrown (logPageError p m s) = thrown s"
  "invoked (logPageError p m s) = invoked s"
  by (simp_all add: logPageError_def)

lemma throw_sel [simp]:
  "pendingCallbacks (throw m s) = pendingCallbacks s"
  "issues (throw m s) = issues s"
  "testedLinks (throw m s) = testedLinks s"
  "written (throw m s) = written s"
  "requests (throw m s) = requests s"
  "done_calls (throw m s) = done_calls s"
  "thrown (throw m s) = Some m"
  "invoked (throw m s) = invoked s"
  by (simp_all add: throw_def)

text \<open>
  \<open>grows s s'\<close>: from \<open>s\<close> to \<open>s'\<close> nothing was taken back. The issues, the tested
  links, the lines written and the requests made were only added to; \<open>done\<close> was not
  called and \<open>next\<close> invoked nothing. \<open>steady\<close> adds that the queue is as it was.
\<close>

definition grows :: "state \<Rightarrow> state \<Rightarrow> bool" where
  "grows s s' =
     (done_calls s' = done_calls s \<and> invoked s' = invoked s \<and>
      prefix (issues s) (issues s') \<and> prefix (testedLinks s) (testedLinks s') \<and>
      prefix (written s) (written s') \<and> prefix (requests s) (requests s'))"

definition steady :: "state \<Rightarrow> state \<Rightarrow> bool" where
  "steady s s' = (pendingCallbacks s' = pendingCallbacks s \<and> grows s s')"

lemma steady_refl [simp]: "steady s s"
  by (simp add: steady_def grows_def)

lemma grows_refl [simp]: "grows s s"
  by (simp add: grows_def)

lemma grows_trans: "grows a b \<Longrightarrow> grows b c \<Longrightarrow> grows a c"
  by (auto simp: grows_def intro: prefix_order.trans)

lemma steady_trans: "steady a b \<Longrightarrow> steady b c \<Longrightarrow> steady a c"
  by (auto simp: steady_def intro: grows_trans)

lemma steady_step [simp]:
  "steady s s' \<Longrightarrow> steady s (host_log m s')"
  "steady s s' \<Longrightarrow> steady s (logPageError p m s')"
  "steady s s' \<Longrightarrow> steady s (throw m s')"
  "steady s s' \<Longrightarrow> prefix (requests s') xs \<Longrightarrow> steady s (s'\<lparr>requests := xs\<rparr>)"
  "steady s s' \<Longrightarrow> prefix (testedLinks s') ys \<Longrightarrow> steady s (s'\<lparr>testedLinks := ys\<rparr>)"
  by (auto simp: steady_def grows_def intro: prefix_order.trans)

lemma grows_step [simp]:
  "grows s s' \<Longrightarrow> grows s (host_log m s')"
  "grows s s' \<Longrightarrow> grows s (logPageError p m s')"
  "grows s s' \<Longrightarrow> grows s (throw m s')"
  "grows s s' \<Longrightarrow> prefix (requests s') xs \<Longrightarrow> grows s (s'\<lparr>requests := xs\<rparr>)"
  "grows s s' \<Longrightarrow> grows s (s'\<lparr>pendingCallbacks := q\<rparr>)"
  by (auto simp: grows_def intro: prefix_order.trans)

lemma steady_onEnd:
  "onEnd env opts page link r e res c s = Inl s' \<Longrightarrow> steady s0 s \<Longrightarrow> steady s0 s'"
  "onEnd env opts page link r e res c s = Inr s' \<Longrightarrow> steady s0 s \<Longrightarrow> steady s0 s'"
  by (auto simp: onEnd_def Let_def split: if_splits option.splits prod.splits param.splits)

lemma steady_onReply:
  "onReply env opts page link r rep s = Inl s' \<Longrightarrow> steady s0 s \<Longrightarrow> steady s0 s'"
  "onReply env opts page link r rep s = Inr s' \<Longrightarrow> steady s0 s \<Longrightarrow> steady s0 s'"
  by (auto simp: onReply_def onError_def split: reply.splits elim: steady_onEnd)

lemma steady_localLinkCheck [simp]:
  "steady s0 s \<Longrightarrow> steady s0 (localLinkCheck env opts page link uri s)"
  by (simp add: localLinkCheck_def)

lemma steady_attemptLink:
  "attemptLink env opts page link r s = Inl s' \<Longrightarrow> steady s0 s \<Longrightarrow> steady s0 s'"
  "attemptLink env opts page link r s = Inr s' \<Longrightarrow> steady s0 s \<Longrightarrow> steady s0 s'"
  by (auto simp: attemptLink_def Let_def split: requester.splits sum.splits if_splits
      elim: steady_onReply)

lemma requestLink_True:
  "requestLink env opts page link True s =
     (case attemptLink env opts page link True s of Inl s' \<Rightarrow> s' | Inr s' \<Rightarrow> s')"
  by (auto simp: requestLink.simps[of env opts page link True s] split: sum.splits
      dest: attemptLink_retry)

lemma steady_requestLink: "steady s0 s \<Longrightarrow> steady s0 (requestLink env opts page link r s)"
  by (subst requestLink.simps)
    (auto split: sum.splits simp: requestLink_True elim: steady_attemptLink)

lemma steady_claimLink:
  "claimLink env opts page link s = (b, s') \<Longrightarrow> steady s0 s \<Longrightarrow> steady s0 s'"
  by (auto simp: claimLink_def Let_def split: if_splits)

lemma steady_testLink: "steady s0 s \<Longrightarrow> steady s0 (testLink env opts page link r s)"
  by (auto simp: testLink_def split: prod.splits bool.splits
      intro: steady_requestLink elim: steady_claimLink)

section \<open>What a page queues\<close>

text \<open>
  The links one call of \<open>addLinks\<close> queues, and those of the whole loop over the
  pairs, read off the conditions of lines 185 to 190.
\<close>

fun each_links :: "env \<Rightarrow> options \<Rightarrow> string \<Rightarrow> string \<Rightarrow> element list \<Rightarrow> string list" where
  "each_links env opts attribute page [] = []"
| "each_links env opts attribute page (e # es) =
     (if truthy (map_of (snd e) attribute) \<and>
         link_wanted env opts page
           (url_resolve env page (case map_of (snd e) attribute of None \<Rightarrow> [] | Some l \<Rightarrow> l))
      then [url_resolve env page (case map_of (snd e) attribute of None \<Rightarrow> [] | Some l \<Rightarrow> l)]
      else []) @ each_links env opts attribute page es"

definition page_links :: "env \<Rightarrow> options \<Rightarrow> string \<Rightarrow> element list \<Rightarrow> (string \<times> string) list \<Rightarrow> string list" where
  "page_links env opts page document pairs =
     concat (map (\<lambda>(element, attribute).
                    each_links env opts attribute page (filter (\<lambda>e. fst e = element) document))
               pairs)"

lemma addLinks_each_queue:
  "index \<le> length (pendingCallbacks s) \<Longrightarrow>
   addLinks_each env opts attribute page es index s =
     (index + length (each_links env opts attribute page es),
      s\<lparr>pendingCallbacks :=
           take index (pendingCallbacks s) @
           map (TestLink page) (each_links env opts attribute page es) @
           drop index (pendingCallbacks s)\<rparr>)"
proof (induction es arbitrary: index s)
  case Nil
  then show ?case by simp
next
  case (Cons e es)
  show ?case
  proof (cases "truthy (map_of (snd e) attribute) \<and>
         link_wanted env opts page
           (url_resolve env page (case map_of (snd e) attribute of None \<Rightarrow> [] | Some l \<Rightarrow> l))")
    case True
    let ?x = "TestLink page (url_resolve env page (case map_of (snd e) attribute of None \<Rightarrow> [] | Some l \<Rightarrow> l))"
    let ?s = "s\<lparr>pendingCallbacks := splice index ?x (pendingCallbacks s)\<rparr>"
    have len: "Suc index \<le> length (pendingCallbacks ?s)"
      using Cons.prems by (simp add: splice_def)
    have tk: "take (Suc index) (splice index ?x (pendingCallbacks s)) = take index (pendingCallbacks s) @ [?x]"
      using Cons.prems by (simp add: splice_def)
    have dr: "drop (Suc index) (splice index ?x (pendingCallbacks s)) = drop index (pendingCallbacks s)"
      using Cons.prems by (simp add: splice_def)
    show ?thesis
      using True Cons.IH[OF len] tk dr by simp
  next
    case False
    then show ?thesis using Cons.IH[OF Cons.prems] by auto
  qed
qed

lemma fold_addLinks_queue:
  "index \<le> length (pendingCallbacks s) \<Longrightarrow>
   fold (\<lambda>(element, attribute) (index, s').
           addLinks env opts document element attribute page index s') pairs (index, s) =
     (index + length (page_links env opts page document pairs),
      s\<lparr>pendingCallbacks :=
           take index (pendingCallbacks s) @
           map (TestLink page) (page_links env opts page document pairs) @
           drop index (pendingCallbacks s)\<rparr>)"
proof (induction pairs arbitrary: index s)
  case Nil
  then show ?case by (simp add: page_links_def)
next
  case (Cons p ps)
  obtain element attribute where p: "p = (element, attribute)" by (cases p)
  let ?L = "each_links env opts attribute page (filter (\<lambda>e. fst e = element) document)"
  let ?s = "s\<lparr>pendingCallbacks := take index (pendingCallbacks s) @ map (TestLink page) ?L @
           drop index (pendingCallbacks s)\<rparr>"
  have step: "addLinks env opts document element attribute page index s = (index + length ?L, ?s)"
    unfolding addLinks_def by (rule addLinks_each_queue[OF Cons.prems])
  have len: "index + length ?L \<le> length (pendingCallbacks ?s)"
    using Cons.prems by simp
  have pl: "page_links env opts page document (p # ps) = ?L @ page_links env opts page document ps"
    by (simp add: page_links_def p)
  have m: "min (length (pendingCallbacks s)) index = index"
    using Cons.prems by simp
  show ?case
    using Cons.IH[OF len] unfolding pl
    by (simp add: p step m)
qed

lemma checkLinks_block_queue:
  "checkLinks_block env opts page content s =
     s\<lparr>pendingCallbacks :=
          map (TestLink page) (page_links env opts page (cheerio_load env content) link_pairs) @
          pendingCallbacks s\<rparr>"
  unfolding checkLinks_block_def
  using fold_addLinks_queue[of 0 s env opts "cheerio_load env content" page link_pairs]
  by simp

text \<open>
  The link of an element for an attribute as lines 184 and 186 compute it, and the links
  of one call of \<open>addLinks\<close> as the elements that pass the conditions.
\<close>

definition resolvedLink :: "env \<Rightarrow> string \<Rightarrow> string \<Rightarrow> element \<Rightarrow> string" where
  "resolvedLink env page attribute e =
     url_resolve env page (case map_of (snd e) attribute of None \<Rightarrow> [] | Some l \<Rightarrow> l)"

lemma each_links_filter:
  "each_links env opts attribute page es =
     map (resolvedLink env page attribute)
       (filter (\<lambda>e. truthy (map_of (snd e) attribute) \<and>
                     link_wanted env opts page (resolvedLink env page attribute e)) es)"
  by (induction es) (simp_all add: resolvedLink_def)

lemma grows_fold_logPageError:
  "grows s0 s \<Longrightarrow> grows s0 (fold (\<lambda>m. logPageError p (f m)) msgs s)"
  by (induction msgs arbitrary: s) auto

lemma queue_fold_logPageError [simp]:
  "pendingCallbacks (fold (\<lambda>m. logPageError p (f m)) msgs s) = pendingCallbacks s"
  by (induction msgs arbitrary: s) auto

lemma thrown_fold_logPageError [simp]:
  "thrown (fold (\<lambda>m. logPageError p (f m)) msgs s) = thrown s"
  by (induction msgs arbitrary: s) auto

lemma page_blocks_queue [simp]:
  "pendingCallbacks (checkXhtml_block env page content s) = pendingCallbacks s"
  "pendingCallbacks (maxResponseTime_block opts page elapsed s) = pendingCallbacks s"
  "pendingCallbacks (checkCaching_block page res s) = pendingCallbacks s"
  "pendingCallbacks (checkCompression_block page res s) = pendingCallbacks s"
  by (auto simp: checkXhtml_block_def maxResponseTime_block_def checkCaching_block_def
      etag_check_def cacheControl_check_def checkCompression_block_def split: option.splits)

lemma page_blocks_thrown [simp]:
  "thrown (checkXhtml_block env page content s) = thrown s"
  "thrown (maxResponseTime_block opts page elapsed s) = thrown s"
  "thrown (checkCaching_block page res s) = thrown s"
  "thrown (checkCompression_block page res s) = thrown s"
  "thrown (checkLinks_block env opts page content s) = thrown s"
  by (auto simp: checkXhtml_block_def maxResponseTime_block_def checkCaching_block_def
      etag_check_def cacheControl_check_def checkCompression_block_def checkLinks_block_queue
      split: option.splits)

lemma page_blocks_grow [simp]:
  "grows s0 s \<Longrightarrow> grows s0 (checkXhtml_block env page content s)"
  "grows s0 s \<Longrightarrow> grows s0 (maxResponseTime_block opts page elapsed s)"
  "grows s0 s \<Longrightarrow> grows s0 (checkCaching_block page res s)"
  "grows s0 s \<Longrightarrow> grows s0 (checkCompression_block page res s)"
  "grows s0 s \<Longrightarrow> grows s0 (checkLinks_block env opts page content s)"
  by (auto simp: checkXhtml_block_def maxResponseTime_block_def checkCaching_block_def
      etag_check_def cacheControl_check_def checkCompression_block_def checkLinks_block_queue
      grows_fold_logPageError split: option.splits)

text \<open>The links a reply makes \<open>testPage\<close> queue, and the page they are queued under.\<close>

definition reply_links :: "env \<Rightarrow> options \<Rightarrow> reply \<Rightarrow> task list" where
  "reply_links env opts r =
     (case r of
        Failed elapsed message \<Rightarrow> []
      | Responded elapsed res content \<Rightarrow>
          if statusCode res < 200 \<or> 300 \<le> statusCode res \<or> \<not> checkLinks opts then []
          else map (TestLink (href res))
                 (page_links env opts (href res) (cheerio_load env content) link_pairs))"

lemma onPage_queue:
  "pendingCallbacks (onPage env opts page r s) = reply_links env opts r @ pendingCallbacks s"
  by (cases r) (auto simp: onPage_def reply_links_def Let_def checkLinks_block_queue)

lemma onPage_grows: "grows s0 s \<Longrightarrow> grows s0 (onPage env opts page r s)"
  by (cases r) (auto simp: onPage_def Let_def)

lemma onPage_thrown [simp]: "thrown (onPage env opts page r s) = thrown s"
  by (cases r) (auto simp: onPage_def Let_def)

definition is_link :: "task \<Rightarrow> bool" where
  "is_link t = (case t of TestLink page link \<Rightarrow> True | _ \<Rightarrow> False)"

lemma reply_links_are_links: "list_all is_link (reply_links env opts r)"
  by (cases r) (auto simp: reply_links_def is_link_def list_all_iff)

lemma testPage_queue:
  "\<exists>new. list_all is_link new \<and>
         pendingCallbacks (testPage env opts page s) = new @ pendingCallbacks s"
proof -
  have "list_all is_link []" by simp
  then show ?thesis
    using reply_links_are_links
    by (auto simp: testPage_def Let_def onPage_queue split: requester.splits sum.splits
        intro: exI[of _ "[]"])
qed

lemma testPage_grows: "grows s (testPage env opts page s)"
  by (auto simp: testPage_def Let_def split: requester.splits sum.splits intro: onPage_grows)

lemma steady_grows: "steady s s' \<Longrightarrow> grows s s'"
  by (simp add: steady_def)

lemma testLink_queue [simp]:
  "pendingCallbacks (testLink env opts page link r s) = pendingCallbacks s"
  using steady_testLink[OF steady_refl, of s env opts page link r] by (simp add: steady_def)

definition is_page :: "task \<Rightarrow> bool" where
  "is_page t = (case t of TestPage page \<Rightarrow> True | _ \<Rightarrow> False)"

lemma filter_is_page_links: "list_all is_link new \<Longrightarrow> filter is_page new = []"
  by (induction new) (auto simp: is_link_def is_page_def split: task.splits)

text \<open>
  The loop of \<open>next\<close>. It ends with the last callback, or with an exception.
\<close>

function run_next :: "env \<Rightarrow> options \<Rightarrow> state \<Rightarrow> state" where
  "run_next env opts s =
     (case pendingCallbacks s of
        [] \<Rightarrow> throw ''TypeError: callback is not a function'' s
      | callback # rest \<Rightarrow>
          (let s1 = run_task env opts callback
                      (s\<lparr>pendingCallbacks := rest, invoked := invoked s @ [callback]\<rparr>)
           in if callback = Finish \<or> thrown s1 \<noteq> None then s1 else run_next env opts s1))"
  by pat_completeness auto

termination run_next
proof (relation "measures [\<lambda>(env, opts, s). length (filter is_page (pendingCallbacks s)),
                           \<lambda>(env, opts, s). length (pendingCallbacks s)]", goal_cases)
  case 1
  then show ?case by simp
next
  case (2 env opts s callback rest s1)
  show ?case
  proof (cases callback)
    case (TestPage page)
    obtain new where new: "list_all is_link new"
      "pendingCallbacks (testPage env opts page (s\<lparr>pendingCallbacks := rest, invoked := invoked s @ [callback]\<rparr>)) = new @ rest"
      using testPage_queue[of env opts page "s\<lparr>pendingCallbacks := rest, invoked := invoked s @ [callback]\<rparr>"]
      by auto
    show ?thesis
      using 2 TestPage new by (simp add: run_task_def filter_is_page_links is_page_def)
  next
    case (TestLink page link)
    then show ?thesis using 2 by (simp add: run_task_def)
  next
    case Finish
    then show ?thesis using 2 by simp
  qed
qed

declare run_next.simps [simp del]

text \<open>
  The entry point, from line 302 on: page URLs without a protocol are given \<open>file:\<close>,
  one \<open>testPage\<close> is queued for each, the last callback is queued, and \<open>next\<close> is
  called. The checks of the arguments' types before that are settled by the types here.
\<close>

definition initial :: state where
  "initial =
     \<lparr>pendingCallbacks = [], issues = [], testedLinks = [], written = [], requests = [],
      done_calls = [], thrown = None, invoked = []\<rparr>"

definition normalise_pageUrl :: "env \<Rightarrow> string \<Rightarrow> string" where
  "normalise_pageUrl env pageUrl =
     (if \<not> truthy (url_protocol env pageUrl) then ''file:'' @ pageUrl else pageUrl)"

definition checkPages :: "env \<Rightarrow> options \<Rightarrow> state" where
  "checkPages env opts =
     run_next env opts
       (initial\<lparr>pendingCallbacks :=
                  map TestPage (map (normalise_pageUrl env) (pageUrls opts)) @ [Finish]\<rparr>)"

section \<open>A small environment for concrete runs\<close>

definition sample_protocol :: "string \<Rightarrow> string option" where
  "sample_protocol u =
     (if take 5 u = ''file:'' then Some ''file:''
      else if take 5 u = ''http:'' then Some ''http:''
      else if take 6 u = ''https:'' then Some ''https:''
      else None)"

definition sample_hash :: "string \<Rightarrow> string option" where
  "sample_hash u = (case dropWhile (\<lambda>c. c \<noteq> CHR ''#'') u of [] \<Rightarrow> None | h \<Rightarrow> Some h)"

definition sample_without_hash :: "string \<Rightarrow> string" where
  "sample_without_hash u = takeWhile (\<lambda>c. c \<noteq> CHR ''#'') u"

definition sample_host :: "string \<Rightarrow> string option" where
  "sample_host u =
     (if take 7 u = ''http://'' then Some (takeWhile (\<lambda>c. c \<noteq> CHR ''/'') (drop 7 u))
      else if take 8 u = ''https://'' then Some (takeWhile (\<lambda>c. c \<noteq> CHR ''/'') (drop 8 u))
      else None)"

definition ok_response :: "string \<Rightarrow> response" where
  "ok_response u = \<lparr>statusCode = 200, headers = (\<lambda>name. None), href = u\<rparr>"

definition sample_env :: env where
  "sample_env =
     \<lparr>url_protocol = sample_protocol,
      url_host = sample_host,
      url_hostname = sample_host,
      url_hash = sample_hash,
      url_path = (\<lambda>u. Some (sample_without_hash u)),
      url_pathname = (\<lambda>u. drop 5 (sample_without_hash u)),
      url_query = (\<lambda>u name. None),
      url_format_without_hash = sample_without_hash,
      url_resolve = (\<lambda>page link. link),
      url_reencoded = (\<lambda>u. u),
      request = (\<lambda>n m u follow. Responded 0 (ok_response u) []),
      fs_read = (\<lambda>n path. (0, Inr [])),
      createHash = (\<lambda>algorithm content. content),
      cheerio_load = (\<lambda>content. []),
      sax_errors = (\<lambda>content. [])\<rparr>"

definition no_options :: options where
  "no_options =
     \<lparr>pageUrls = [], checkLinks = False, onlySameDomain = False, noRedirects = False,
      noLocalLinks = False, noEmptyFragments = False, queryHashes = False,
      linksToIgnore = [], checkXhtml = False, checkCaching = False,
      checkCompression = False, maxResponseTime = None, summary = False\<rparr>"

section \<open>Link checks: the look-up of tested links\<close>

lemma claimLink_empty_fragment:
  assumes "noEmptyFragments opts" and "url_hash env link = Some ''#''"
  shows "\<exists>rest. issues (snd (claimLink env opts page link s)) =
           issues s @ (page, ''Empty fragment: '' @ link) # rest"
  using assms by (auto simp: claimLink_def Let_def)

lemma prefix_issuesD: "steady s s' \<Longrightarrow> \<exists>rest. issues s' = issues s @ rest"
  by (auto simp: steady_def grows_def prefix_def)

lemma testLink_visited:
  assumes "url_format_without_hash env link \<in> set (testedLinks s)"
  shows "testLink env opts page link False s =
           host_log (''Visited link: '' @ link)
             (if noEmptyFragments opts \<and> url_hash env link = Some ''#''
              then logPageError page (''Empty fragment: '' @ link) s else s)"
  using assms by (auto simp: testLink_def claimLink_def Let_def)

lemma testLink_first_time:
  assumes "url_format_without_hash env link \<notin> set (testedLinks s)"
  shows "testLink env opts page link False s =
           requestLink env opts page link False
             ((if noEmptyFragments opts \<and> url_hash env link = Some ''#''
               then logPageError page (''Empty fragment: '' @ link) s else s)
              \<lparr>testedLinks := testedLinks s @ [url_format_without_hash env link]\<rparr>)"
  using assms by (auto simp: testLink_def claimLink_def Let_def)

section \<open>Runs\<close>

text \<open>
  A relation between states that every callback respects, and that is reflexive and
  transitive, holds between the state \<open>next\<close> starts in and the state the run ends in.
\<close>

lemma run_next_related:
  assumes same: "\<And>s. R s s"
    and chain: "\<And>a b c. R a b \<Longrightarrow> R b c \<Longrightarrow> R a c"
    and step: "\<And>callback rest s.
                 R s (run_task env opts callback
                        (s\<lparr>pendingCallbacks := rest, invoked := invoked s @ [callback]\<rparr>))"
    and thrw: "\<And>m s. R s (throw m s)"
  shows "R s (run_next env opts s)"
  using step
proof (induction env opts s rule: run_next.induct)
  case (1 env opts s)
  show ?case
  proof (cases "pendingCallbacks s")
    case Nil
    then show ?thesis by (simp add: run_next.simps[of env opts s] thrw)
  next
    case (Cons callback rest)
    let ?s1 = "run_task env opts callback
                 (s\<lparr>pendingCallbacks := rest, invoked := invoked s @ [callback]\<rparr>)"
    have a: "R s ?s1" by (rule "1.prems")
    show ?thesis
    proof (cases "callback = Finish \<or> thrown ?s1 \<noteq> None")
      case True
      then show ?thesis using Cons a by (simp add: run_next.simps[of env opts s] Let_def)
    next
      case False
      have "R ?s1 (run_next env opts ?s1)"
        using "1.IH"[OF Cons refl False "1.prems"] .
      with a have "R s (run_next env opts ?s1)" by (rule chain)
      then show ?thesis using Cons False by (simp add: run_next.simps[of env opts s] Let_def)
    qed
  qed
qed

section \<open>The list of tested links\<close>

lemma tested_onEnd:
  "onEnd env opts page link r e res c s = Inl s' \<Longrightarrow> testedLinks s' = testedLinks s"
  "onEnd env opts page link r e res c s = Inr s' \<Longrightarrow> testedLinks s' = testedLinks s"
  by (auto simp: onEnd_def Let_def split: if_splits option.splits prod.splits param.splits)

lemma tested_onReply:
  "onReply env opts page link r rep s = Inl s' \<Longrightarrow> testedLinks s' = testedLinks s"
  "onReply env opts page link r rep s = Inr s' \<Longrightarrow> testedLinks s' = testedLinks s"
  by (auto simp: onReply_def onError_def split: reply.splits dest: tested_onEnd)

lemma tested_attemptLink:
  "attemptLink env opts page link r s = Inl s' \<Longrightarrow> testedLinks s' = testedLinks s"
  "attemptLink env opts page link r s = Inr s' \<Longrightarrow> testedLinks s' = testedLinks s"
  by (auto simp: attemptLink_def Let_def localLinkCheck_def
      split: requester.splits sum.splits if_splits dest: tested_onReply)

lemma tested_requestLink [simp]:
  "testedLinks (requestLink env opts page link r s) = testedLinks s"
proof (cases "attemptLink env opts page link r s")
  case (Inl s')
  then show ?thesis
    by (simp add: requestLink.simps[of env opts page link r s] tested_attemptLink(1))
next
  case (Inr s2)
  have "testedLinks (requestLink env opts page link True s2) = testedLinks s2"
    by (cases "attemptLink env opts page link True s2")
      (simp_all add: requestLink_True tested_attemptLink)
  then show ?thesis
    using Inr by (simp add: requestLink.simps[of env opts page link r s] tested_attemptLink(2))
qed

lemma tested_fold_logPageError [simp]:
  "testedLinks (fold (\<lambda>m. logPageError p (f m)) msgs s) = testedLinks s"
  by (induction msgs arbitrary: s) auto

lemma page_blocks_tested [simp]:
  "testedLinks (checkXhtml_block env page content s) = testedLinks s"
  "testedLinks (maxResponseTime_block opts page elapsed s) = testedLinks s"
  "testedLinks (checkCaching_block page res s) = testedLinks s"
  "testedLinks (checkCompression_block page res s) = testedLinks s"
  "testedLinks (checkLinks_block env opts page content s) = testedLinks s"
  by (auto simp: checkXhtml_block_def maxResponseTime_block_def checkCaching_block_def
      etag_check_def cacheControl_check_def checkCompression_block_def checkLinks_block_queue
      split: option.splits)

lemma tested_onPage [simp]: "testedLinks (onPage env opts page r s) = testedLinks s"
  by (cases r) (simp_all add: onPage_def Let_def)

lemma tested_testPage [simp]: "testedLinks (testPage env opts page s) = testedLinks s"
  by (auto simp: testPage_def Let_def split: requester.splits sum.splits)

lemma tested_finish [simp]: "testedLinks (finish opts s) = testedLinks s"
  by (simp add: finish_def Let_def)

lemma tested_testLink_prefix:
  "prefix (testedLinks s) (testedLinks (testLink env opts page link r s))"
  using steady_testLink[OF steady_refl, of s env opts page link r]
  by (simp add: steady_def grows_def)

lemma tested_testLink_distinct:
  "distinct (testedLinks s) \<Longrightarrow> distinct (testedLinks (testLink env opts page link r s))"
  by (auto simp: testLink_def claimLink_def Let_def)

lemma tested_run_task_prefix:
  "prefix (testedLinks s) (testedLinks (run_task env opts t (s\<lparr>pendingCallbacks := q, invoked := h\<rparr>)))"
  using tested_testLink_prefix[of "s\<lparr>pendingCallbacks := q, invoked := h\<rparr>"]
  by (cases t) (simp_all add: run_task_def)

lemma tested_run_task_distinct:
  "distinct (testedLinks s) \<Longrightarrow>
   distinct (testedLinks (run_task env opts t (s\<lparr>pendingCallbacks := q, invoked := h\<rparr>)))"
  using tested_testLink_distinct[of "s\<lparr>pendingCallbacks := q, invoked := h\<rparr>"]
  by (cases t) (simp_all add: run_task_def)

lemma tested_run_next_prefix: "prefix (testedLinks s) (testedLinks (run_next env opts s))"
  by (rule run_next_related[where R = "\<lambda>s s'. prefix (testedLinks s) (testedLinks s')"])
    (auto intro: tested_run_task_prefix)

lemma tested_run_next_distinct:
  "distinct (testedLinks s) \<longrightarrow> distinct (testedLinks (run_next env opts s))"
  by (rule run_next_related[where R = "\<lambda>s s'. distinct (testedLinks s) \<longrightarrow> distinct (testedLinks s')"])
    (auto intro: tested_run_task_distinct)

section \<open>Empty fragments\<close>

text \<open>
  Claim C9. With \<open>noEmptyFragments\<close> set, every link check that is not a GET retry
  and whose link has the fragment \<open>#\<close> records the issue
  \<open>Empty fragment: \<close> followed by the link, as its first issue, whatever happens
  next; when the link is then skipped as visited, that issue is the only one, the two
  lines written are the error and the \<open>Visited link\<close> notice, and no request is made.
\<close>

theorem empty_fragment_always_recorded:
  assumes "noEmptyFragments opts" and "url_hash env link = Some ''#''"
  shows "(\<exists>rest. issues (testLink env opts page link False s) =
            issues s @ (page, ''Empty fragment: '' @ link) # rest) \<and>
         (url_format_without_hash env link \<in> set (testedLinks s) \<longrightarrow>
            issues (testLink env opts page link False s) =
              issues s @ [(page, ''Empty fragment: '' @ link)] \<and>
            written (testLink env opts page link False s) =
              written s @ [HostError (''Empty fragment: '' @ link),
                           HostLog (''Visited link: '' @ link)] \<and>
            requests (testLink env opts page link False s) = requests s)"
proof (intro conjI impI)
  let ?s1 = "logPageError page (''Empty fragment: '' @ link) s"
  show "\<exists>rest. issues (testLink env opts page link False s) =
            issues s @ (page, ''Empty fragment: '' @ link) # rest"
  proof (cases "url_format_without_hash env link \<in> set (testedLinks s)")
    case True
    then show ?thesis using assms by (simp add: testLink_visited)
  next
    case False
    let ?s2 = "?s1\<lparr>testedLinks := testedLinks s @ [url_format_without_hash env link]\<rparr>"
    have "steady ?s2 (requestLink env opts page link False ?s2)"
      by (rule steady_requestLink) simp
    then obtain rest where "issues (requestLink env opts page link False ?s2) = issues ?s2 @ rest"
      using prefix_issuesD by blast
    then show ?thesis using assms False by (simp add: testLink_first_time)
  qed
next
  assume v: "url_format_without_hash env link \<in> set (testedLinks s)"
  show "issues (testLink env opts page link False s) = issues s @ [(page, ''Empty fragment: '' @ link)]"
    using assms v by (simp add: testLink_visited)
  show "written (testLink env opts page link False s) =
              written s @ [HostError (''Empty fragment: '' @ link),
                           HostLog (''Visited link: '' @ link)]"
    using assms v by (simp add: testLink_visited)
  show "requests (testLink env opts page link False s) = requests s"
    using assms v by (simp add: testLink_visited)
qed

definition visited_state :: state where
  "visited_state = initial\<lparr>testedLinks := [''http://example.com/link'']\<rparr>"

theorem empty_fragment_always_recorded_witness:
  "noEmptyFragments (no_options\<lparr>noEmptyFragments := True\<rparr>) \<and>
   url_hash sample_env ''http://example.com/link#'' = Some ''#'' \<and>
   url_format_without_hash sample_env ''http://example.com/link#'' \<in> set (testedLinks visited_state) \<and>
   issues (testLink sample_env (no_options\<lparr>noEmptyFragments := True\<rparr>)
             ''http://example.com/page'' ''http://example.com/link#'' False visited_state) =
     issues visited_state @ [(''http://example.com/page'', ''Empty fragment: http://example.com/link#'')] \<and>
   requests (testLink sample_env (no_options\<lparr>noEmptyFragments := True\<rparr>)
             ''http://example.com/page'' ''http://example.com/link#'' False visited_state) =
     requests visited_state"
proof -
  have a: "noEmptyFragments (no_options\<lparr>noEmptyFragments := True\<rparr>)" by simp
  have b: "url_hash sample_env ''http://example.com/link#'' = Some ''#''"
    by (simp add: sample_env_def sample_hash_def)
  have c: "url_format_without_hash sample_env ''http://example.com/link#'' \<in> set (testedLinks visited_state)"
    by (simp add: sample_env_def sample_without_hash_def visited_state_def)
  show ?thesis
    using empty_fragment_always_recorded[OF a b, of "''http://example.com/page''" visited_state] a b c
    by simp
qed

section \<open>Deduplication\<close>

lemma tested_checkPages_distinct: "distinct (testedLinks (checkPages env opts))"
  using tested_run_next_distinct[of "initial\<lparr>pendingCallbacks :=
                  map TestPage (map (normalise_pageUrl env) (pageUrls opts)) @ [Finish]\<rparr>" env opts]
  by (simp add: checkPages_def initial_def)

text \<open>
  Claim C1 says that a link check whose link without its fragment is already in
  \<open>testedLinks\<close> ends without recording an issue. With \<open>noEmptyFragments\<close> set, the
  check of a visited link that ends in \<open>#\<close> records the empty-fragment issue before
  it looks the link up.
\<close>

theorem visited_link_issue_counterexample:
  "url_format_without_hash sample_env ''http://example.com/link#'' \<in> set (testedLinks visited_state) \<and>
   issues (testLink sample_env (no_options\<lparr>noEmptyFragments := True\<rparr>)
             ''http://example.com/page'' ''http://example.com/link#'' False visited_state) \<noteq>
     issues visited_state"
  by (simp add: testLink_visited sample_env_def sample_without_hash_def sample_hash_def
      visited_state_def)

text \<open>
  Claim C1, amended. In every run the list of tested links only grows, and it never
  holds a link twice. A link check (not a retry) whose link without its fragment is
  already in the list writes the \<open>Visited link\<close> notice and ends: it makes no
  request, adds nothing to the list, throws nothing, and records no issue other than the
  empty-fragment issue, which it records first when \<open>noEmptyFragments\<close> is set and the
  fragment is \<open>#\<close>. A link check whose link is not yet in the list adds it, and only
  then, with no request made so far, goes on to the request.
\<close>

theorem tested_links_checked_once:
  "prefix (testedLinks s) (testedLinks (run_next env opts s)) \<and>
   distinct (testedLinks (checkPages env opts)) \<and>
   (url_format_without_hash env link \<in> set (testedLinks s) \<longrightarrow>
      written (testLink env opts page link False s) =
        written s @
        (if noEmptyFragments opts \<and> url_hash env link = Some ''#''
         then [HostError (''Empty fragment: '' @ link)] else []) @
        [HostLog (''Visited link: '' @ link)] \<and>
      issues (testLink env opts page link False s) =
        issues s @
        (if noEmptyFragments opts \<and> url_hash env link = Some ''#''
         then [(page, ''Empty fragment: '' @ link)] else []) \<and>
      requests (testLink env opts page link False s) = requests s \<and>
      testedLinks (testLink env opts page link False s) = testedLinks s \<and>
      thrown (testLink env opts page link False s) = thrown s) \<and>
   (url_format_without_hash env link \<notin> set (testedLinks s) \<longrightarrow>
      testLink env opts page link False s =
        requestLink env opts page link False (snd (claimLink env opts page link s)) \<and>
      testedLinks (snd (claimLink env opts page link s)) =
        testedLinks s @ [url_format_without_hash env link] \<and>
      requests (snd (claimLink env opts page link s)) = requests s \<and>
      testedLinks (testLink env opts page link False s) =
        testedLinks s @ [url_format_without_hash env link])"
proof (intro conjI impI)
  show "prefix (testedLinks s) (testedLinks (run_next env opts s))"
    by (rule tested_run_next_prefix)
  show "distinct (testedLinks (checkPages env opts))"
    by (rule tested_checkPages_distinct)
next
  assume v: "url_format_without_hash env link \<in> set (testedLinks s)"
  note eq = testLink_visited[OF v, of opts page]
  show "written (testLink env opts page link False s) =
        written s @
        (if noEmptyFragments opts \<and> url_hash env link = Some ''#''
         then [HostError (''Empty fragment: '' @ link)] else []) @
        [HostLog (''Visited link: '' @ link)]"
    by (simp add: eq)
  show "issues (testLink env opts page link False s) =
        issues s @
        (if noEmptyFragments opts \<and> url_hash env link = Some ''#''
         then [(page, ''Empty fragment: '' @ link)] else [])"
    by (simp add: eq)
  show "requests (testLink env opts page link False s) = requests s"
    by (simp add: eq)
  show "testedLinks (testLink env opts page link False s) = testedLinks s"
    by (simp add: eq)
  show "thrown (testLink env opts page link False s) = thrown s"
    by (simp add: eq)
next
  assume n: "url_format_without_hash env link \<notin> set (testedLinks s)"
  have c: "claimLink env opts page link s =
             (False, (if noEmptyFragments opts \<and> url_hash env link = Some ''#''
               then logPageError page (''Empty fragment: '' @ link) s else s)
              \<lparr>testedLinks := testedLinks s @ [url_format_without_hash env link]\<rparr>)"
    using n by (auto simp: claimLink_def Let_def)
  show "testLink env opts page link False s =
        requestLink env opts page link False (snd (claimLink env opts page link s))"
    by (simp add: testLink_def c)
  show "testedLinks (snd (claimLink env opts page link s)) =
        testedLinks s @ [url_format_without_hash env link]"
    by (simp add: c)
  show "requests (snd (claimLink env opts page link s)) = requests s"
    by (simp add: c)
  show "testedLinks (testLink env opts page link False s) =
        testedLinks s @ [url_format_without_hash env link]"
    by (simp add: testLink_def c)
qed

theorem tested_links_checked_once_witness:
  "url_format_without_hash sample_env ''http://example.com/link#top'' \<in> set (testedLinks visited_state) \<and>
   written (testLink sample_env no_options ''http://example.com/page''
              ''http://example.com/link#top'' False visited_state) =
     [HostLog ''Visited link: http://example.com/link#top''] \<and>
   issues (testLink sample_env no_options ''http://example.com/page''
              ''http://example.com/link#top'' False visited_state) = [] \<and>
   requests (testLink sample_env no_options ''http://example.com/page''
              ''http://example.com/link#top'' False visited_state) = [] \<and>
   url_format_without_hash sample_env ''http://example.com/other'' \<notin> set (testedLinks visited_state) \<and>
   testedLinks (testLink sample_env no_options ''http://example.com/page''
              ''http://example.com/other'' False visited_state) =
     [''http://example.com/link'', ''http://example.com/other'']"
proof -
  have v: "url_format_without_hash sample_env ''http://example.com/link#top'' \<in> set (testedLinks visited_state)"
    by (simp add: sample_env_def sample_without_hash_def visited_state_def)
  have n: "url_format_without_hash sample_env ''http://example.com/other'' \<notin> set (testedLinks visited_state)"
    by (simp add: sample_env_def sample_without_hash_def visited_state_def)
  have e: "url_format_without_hash sample_env ''http://example.com/other'' = ''http://example.com/other''"
    by (simp add: sample_env_def sample_without_hash_def)
  have i: "written visited_state = []" "issues visited_state = []" "requests visited_state = []"
    "testedLinks visited_state = [''http://example.com/link'']"
    by (simp_all add: visited_state_def initial_def)
  have o: "\<not> noEmptyFragments no_options" by (simp add: no_options_def)
  show ?thesis
    using tested_links_checked_once[of visited_state sample_env no_options
        "''http://example.com/link#top''" "''http://example.com/page''"]
      tested_links_checked_once[of visited_state sample_env no_options
        "''http://example.com/other''" "''http://example.com/page''"]
      v n e i o
    by simp
qed

section \<open>The requests made\<close>

lemma requests_onEnd:
  "onEnd env opts page link r e res c s = Inl s' \<Longrightarrow> requests s' = requests s"
  "onEnd env opts page link r e res c s = Inr s' \<Longrightarrow> requests s' = requests s"
  by (auto simp: onEnd_def Let_def split: if_splits option.splits prod.splits param.splits)

lemma requests_onReply:
  "onReply env opts page link r rep s = Inl s' \<Longrightarrow> requests s' = requests s"
  "onReply env opts page link r rep s = Inr s' \<Longrightarrow> requests s' = requests s"
  by (auto simp: onReply_def onError_def split: reply.splits dest: requests_onEnd)

lemma requests_localLinkCheck [simp]:
  "requests (localLinkCheck env opts page link uri s) = requests s"
  by (simp add: localLinkCheck_def)


lemma onEnd_retry_head:
  "onEnd env opts page link r e res c s = Inr s' \<Longrightarrow> \<not> useGetRequest opts r"
  by (auto simp: onEnd_def Let_def split: if_splits option.splits prod.splits param.splits)

lemma onReply_retry_head:
  "onReply env opts page link r rep s = Inr s' \<Longrightarrow> \<not> useGetRequest opts r"
  by (auto simp: onReply_def split: reply.splits dest: onEnd_retry_head)

lemma attemptLink_retry_head:
  "attemptLink env opts page link r s = Inr s' \<Longrightarrow> \<not> useGetRequest opts r"
  by (auto simp: attemptLink_def Let_def split: requester.splits sum.splits if_splits
      dest: onReply_retry_head)

lemma requestLink_full:
  assumes "useGetRequest opts r"
  shows "requestLink env opts page link r s =
           (case attemptLink env opts page link r s of Inl s' \<Rightarrow> s' | Inr s' \<Rightarrow> s')"
  using assms
  by (auto simp: requestLink.simps[of env opts page link r s] split: sum.splits
      dest: attemptLink_retry_head)




lemma requests_fold_logPageError [simp]:
  "requests (fold (\<lambda>m. logPageError p (f m)) msgs s) = requests s"
  by (induction msgs arbitrary: s) auto

lemma page_blocks_requests [simp]:
  "requests (checkXhtml_block env page content s) = requests s"
  "requests (maxResponseTime_block opts page elapsed s) = requests s"
  "requests (checkCaching_block page res s) = requests s"
  "requests (checkCompression_block page res s) = requests s"
  "requests (checkLinks_block env opts page content s) = requests s"
  by (auto simp: checkXhtml_block_def maxResponseTime_block_def checkCaching_block_def
      etag_check_def cacheControl_check_def checkCompression_block_def checkLinks_block_queue
      split: option.splits)

lemma requests_onPage [simp]: "requests (onPage env opts page r s) = requests s"
  by (cases r) (simp_all add: onPage_def Let_def)


lemma requests_finish [simp]: "requests (finish opts s) = requests s"
  by (simp add: finish_def Let_def)





lemma linkHash_needs_queryHashes: "linkHash env opts link = Some h \<Longrightarrow> queryHashes opts"
  by (simp add: linkHash_def split: if_splits)


definition hash_env :: env where
  "hash_env =
     sample_env
       \<lparr>url_query :=
          (\<lambda>u name. if name = ''sha1'' \<and> u = ''http://example.com/a.zip?sha1=AB''
                     then Some (Once ''AB'') else None),
        createHash := (\<lambda>algorithm content. ''ab''),
        cheerio_load := (\<lambda>content. [(''a'', [(''href'', ''http://example.com/a.zip?sha1=AB'')])])\<rparr>"

definition hash_options :: options where
  "hash_options =
     no_options\<lparr>pageUrls := [''http://example.com/''], checkLinks := True, queryHashes := True\<rparr>"


section \<open>The outcome of a link request\<close>

text \<open>
  A file request answers with status 200 or fails, so a link whose response has any
  other status was requested through the \<open>request\<close> package.
\<close>

lemma requestFile_status:
  "requestFile env n uri = Inr (Responded elapsed res content) \<Longrightarrow> statusCode res = 200"
  by (auto simp: requestFile_def responseFor_def split: option.splits prod.splits sum.splits)

lemma issues_localLinkCheck:
  "issues (localLinkCheck env opts page link uri s) =
     issues s @
     (if noLocalLinks opts \<and>
         rx_test True localhost (case url_host env uri of None \<Rightarrow> ''null'' | Some h \<Rightarrow> h)
      then [(page, ''Local link: '' @ link)] else [])"
  by (simp add: localLinkCheck_def)

lemma attemptLink_Request:
  assumes "requestFor env link = Request"
  shows "attemptLink env opts page link r s =
           onReply env opts page link r
             (request env (length (requests s)) (method_of opts r) (fixNonAsciiLink env link)
                (\<not> noRedirects opts))
             (localLinkCheck env opts page link (fixNonAsciiLink env link)
                (s\<lparr>requests := requests s @ [(method_of opts r, fixNonAsciiLink env link)]\<rparr>))"
  using assms by (simp add: attemptLink_def Let_def)

lemma issues_localLinkCheck_requests [simp]:
  "issues (localLinkCheck env opts page link uri (s\<lparr>requests := q\<rparr>)) =
   issues (localLinkCheck env opts page link uri s)"
  by (simp add: localLinkCheck_def)

text \<open>
  Claim C5. With \<open>noRedirects\<close> set, a link check in full-request mode (a retry, or
  any check under \<open>queryHashes\<close>) whose response has a status outside 200 to 299
  records, after whatever the local-link check recorded, exactly one more issue: for
  a status from 300 to 399 the \<open>Redirected link\<close> issue, which names the value of the
  \<open>Location\<close> header when the response has one that is not empty and
  \<open>[Missing Location header]\<close> when it has none; for any other status the
  \<open>Bad link\<close> issue.
\<close>

theorem redirected_or_bad_link:
  assumes "noRedirects opts"
    and "useGetRequest opts retryWithGet"
    and "requestFor env link = Request"
    and "request env (length (requests s)) GET (fixNonAsciiLink env link) False =
           Responded elapsed res content"
    and "\<not> is_2xx res"
  shows "issues (requestLink env opts page link retryWithGet s) =
           issues (localLinkCheck env opts page link (fixNonAsciiLink env link) s) @
           [(page,
             if is_3xx res
             then ''Redirected link ('' @ string_of_nat (statusCode res) @ ''): '' @ link @
                  '' -> '' @ location_or_marker res @ ms elapsed
             else ''Bad link ('' @ string_of_nat (statusCode res) @ ''): '' @ link @
                  ms elapsed)] \<and>
         (\<forall>l. headers res ''location'' = Some l \<and> l \<noteq> [] \<longrightarrow> location_or_marker res = l) \<and>
         (\<not> truthy (headers res ''location'') \<longrightarrow>
            location_or_marker res = ''[Missing Location header]'')"
proof (intro conjI allI impI)
  have m: "method_of opts retryWithGet = GET"
    using assms(2) by (simp add: method_of_def)
  show "issues (requestLink env opts page link retryWithGet s) =
           issues (localLinkCheck env opts page link (fixNonAsciiLink env link) s) @
           [(page,
             if is_3xx res
             then ''Redirected link ('' @ string_of_nat (statusCode res) @ ''): '' @ link @
                  '' -> '' @ location_or_marker res @ ms elapsed
             else ''Bad link ('' @ string_of_nat (statusCode res) @ ''): '' @ link @
                  ms elapsed)]"
    using assms
    by (simp add: requestLink_full attemptLink_Request m onReply_def onEnd_def)
next
  fix l
  assume "headers res ''location'' = Some l \<and> l \<noteq> []"
  then show "location_or_marker res = l" by (simp add: location_or_marker_def)
next
  assume "\<not> truthy (headers res ''location'')"
  then show "location_or_marker res = ''[Missing Location header]''"
    by (auto simp: location_or_marker_def truthy_def split: option.splits)
qed

definition moved_response :: "string \<Rightarrow> response" where
  "moved_response u =
     \<lparr>statusCode = 301,
      headers = (\<lambda>name. if name = ''location'' then Some ''/x'' else None),
      href = u\<rparr>"

definition redirect_env :: env where
  "redirect_env = sample_env\<lparr>request := (\<lambda>n m u follow. Responded 7 (moved_response u) [])\<rparr>"

theorem redirected_or_bad_link_witness:
  "noRedirects (no_options\<lparr>noRedirects := True\<rparr>) \<and>
   useGetRequest (no_options\<lparr>noRedirects := True\<rparr>) True \<and>
   requestFor redirect_env ''http://example.com/moved'' = Request \<and>
   request redirect_env (length (requests initial)) GET
     (fixNonAsciiLink redirect_env ''http://example.com/moved'') False =
     Responded 7 (moved_response ''http://example.com/moved'') [] \<and>
   \<not> is_2xx (moved_response ''http://example.com/moved'') \<and>
   issues (requestLink redirect_env (no_options\<lparr>noRedirects := True\<rparr>) ''http://example.com/''
             ''http://example.com/moved'' True initial) =
     [(''http://example.com/'',
       ''Redirected link (301): http://example.com/moved -> /x (7ms)'')]"
proof -
  have a: "noRedirects (no_options\<lparr>noRedirects := True\<rparr>)" by simp
  have b: "useGetRequest (no_options\<lparr>noRedirects := True\<rparr>) True"
    by (simp add: useGetRequest_def)
  have c: "requestFor redirect_env ''http://example.com/moved'' = Request"
    by code_simp
  have d: "request redirect_env (length (requests initial)) GET
     (fixNonAsciiLink redirect_env ''http://example.com/moved'') False =
     Responded 7 (moved_response ''http://example.com/moved'') []"
  proof -
    have "fixNonAsciiLink redirect_env ''http://example.com/moved'' = ''http://example.com/moved''"
      by code_simp
    then show ?thesis by (simp add: redirect_env_def)
  qed
  have e: "\<not> is_2xx (moved_response ''http://example.com/moved'')"
    by code_simp
  have f: "issues (localLinkCheck redirect_env (no_options\<lparr>noRedirects := True\<rparr>) ''http://example.com/''
             ''http://example.com/moved'' (fixNonAsciiLink redirect_env ''http://example.com/moved'') initial) @
           [(''http://example.com/'',
             if is_3xx (moved_response ''http://example.com/moved'')
             then ''Redirected link ('' @ string_of_nat (statusCode (moved_response ''http://example.com/moved'')) @ ''): '' @ ''http://example.com/moved'' @
                  '' -> '' @ location_or_marker (moved_response ''http://example.com/moved'') @ ms 7
             else ''Bad link ('' @ string_of_nat (statusCode (moved_response ''http://example.com/moved'')) @ ''): '' @ ''http://example.com/moved'' @
                  ms 7)] =
     [(''http://example.com/'',
       ''Redirected link (301): http://example.com/moved -> /x (7ms)'')]"
    by code_simp
  from redirected_or_bad_link[OF a b c d e, of "''http://example.com/''"]
  have "issues (requestLink redirect_env (no_options\<lparr>noRedirects := True\<rparr>) ''http://example.com/''
             ''http://example.com/moved'' True initial) =
     [(''http://example.com/'',
       ''Redirected link (301): http://example.com/moved -> /x (7ms)'')]"
    unfolding f by blast
  then show ?thesis using a b c d e by blast
qed

section \<open>The retry of a failed probe\<close>

text \<open>
  The issues the two policy checks of a link check record: the local-link check, once
  for each request the check makes, and the empty-fragment check of lines 95 to 98.
\<close>

definition local_issue :: "env \<Rightarrow> options \<Rightarrow> string \<Rightarrow> string \<Rightarrow> (string \<times> string) list" where
  "local_issue env opts page link =
     (if noLocalLinks opts \<and>
         rx_test True localhost
           (case url_host env (fixNonAsciiLink env link) of None \<Rightarrow> ''null'' | Some h \<Rightarrow> h)
      then [(page, ''Local link: '' @ link)] else [])"

definition empty_fragment_issue :: "env \<Rightarrow> options \<Rightarrow> string \<Rightarrow> string \<Rightarrow> (string \<times> string) list" where
  "empty_fragment_issue env opts page link =
     (if noEmptyFragments opts \<and> url_hash env link = Some ''#''
      then [(page, ''Empty fragment: '' @ link)] else [])"

lemma localLinkCheck_sel [simp]:
  "requests (localLinkCheck env opts page link uri s) = requests s"
  "testedLinks (localLinkCheck env opts page link uri s) = testedLinks s"
  "thrown (localLinkCheck env opts page link uri s) = thrown s"
  "issues (localLinkCheck env opts page link (fixNonAsciiLink env link) s) =
     issues s @ local_issue env opts page link"
  by (simp_all add: localLinkCheck_def local_issue_def)

lemma head_then_get:
  assumes nq: "\<not> queryHashes opts"
    and req: "requestFor env link = Request"
    and hd: "request env (length (requests s)) HEAD (fixNonAsciiLink env link)
               (\<not> noRedirects opts) = Responded e1 r1 c1"
    and bad: "\<not> is_2xx r1"
  shows "requestLink env opts page link False s =
           requestLink env opts page link True
             (localLinkCheck env opts page link (fixNonAsciiLink env link)
                (s\<lparr>requests := requests s @ [(HEAD, fixNonAsciiLink env link)]\<rparr>))"
proof -
  have m: "method_of opts False = HEAD"
    using nq by (simp add: method_of_def useGetRequest_def)
  have "attemptLink env opts page link False s =
          Inr (localLinkCheck env opts page link (fixNonAsciiLink env link)
                (s\<lparr>requests := requests s @ [(HEAD, fixNonAsciiLink env link)]\<rparr>))"
    using hd bad nq
    by (simp add: attemptLink_Request[OF req] m onReply_def onEnd_def useGetRequest_def)
  then show ?thesis
    by (simp add: requestLink.simps[of env opts page link False s])
qed

lemma get_retry:
  assumes req: "requestFor env link = Request"
  shows "requestLink env opts page link True s =
           (case onReply env opts page link True
                   (request env (length (requests s)) GET (fixNonAsciiLink env link)
                      (\<not> noRedirects opts))
                   (localLinkCheck env opts page link (fixNonAsciiLink env link)
                      (s\<lparr>requests := requests s @ [(GET, fixNonAsciiLink env link)]\<rparr>)) of
              Inl s' \<Rightarrow> s' | Inr s' \<Rightarrow> s')"
proof -
  have m: "method_of opts True = GET"
    by (simp add: method_of_def useGetRequest_def)
  show ?thesis
    by (simp add: requestLink_True attemptLink_Request[OF req] m)
qed

lemma requests_onReply_case [simp]:
  "requests (case onReply env opts page link r rep s of Inl s' \<Rightarrow> s' | Inr s' \<Rightarrow> s') = requests s"
  by (cases "onReply env opts page link r rep s") (auto dest: requests_onReply)

lemma linkHash_off [simp]: "\<not> queryHashes opts \<Longrightarrow> linkHash env opts link = None"
  by (simp add: linkHash_def)

text \<open>
  Claim C3, amended. A link check that starts with a \<open>HEAD\<close> request (no
  \<open>queryHashes\<close>, not a retry, link not yet tested) and whose response has a status
  outside 200 to 299 makes exactly one more request, a \<open>GET\<close> for the same URI. If
  that one answers with a status from 200 to 299, the check writes the \<open>Link\<close> line
  and throws nothing, and the issues it has recorded are those of the policy checks
  alone: the empty-fragment issue and the local-link issue of each of the two requests,
  where their options are set and they apply. No issue is recorded for the failed probe.
\<close>

theorem head_failure_is_retried_with_get:
  assumes "\<not> queryHashes opts"
    and "url_format_without_hash env link \<notin> set (testedLinks s)"
    and "requestFor env link = Request"
    and "request env (length (requests s)) HEAD (fixNonAsciiLink env link)
           (\<not> noRedirects opts) = Responded e1 r1 c1"
    and "\<not> is_2xx r1"
  shows "requests (testLink env opts page link False s) =
           requests s @ [(HEAD, fixNonAsciiLink env link), (GET, fixNonAsciiLink env link)] \<and>
         (\<forall>e2 r2 c2.
            request env (Suc (length (requests s))) GET (fixNonAsciiLink env link)
              (\<not> noRedirects opts) = Responded e2 r2 c2 \<and> is_2xx r2 \<longrightarrow>
            issues (testLink env opts page link False s) =
              issues s @ empty_fragment_issue env opts page link @
              local_issue env opts page link @ local_issue env opts page link \<and>
            written (testLink env opts page link False s) =
              written s @ map (HostError \<circ> snd) (empty_fragment_issue env opts page link) @
              map (HostError \<circ> snd) (local_issue env opts page link) @
              map (HostError \<circ> snd) (local_issue env opts page link) @
              [HostLog (''Link: '' @ link @ ms e2)] \<and>
            thrown (testLink env opts page link False s) = thrown s)"
proof -
  define uri where "uri = fixNonAsciiLink env link"
  define s1 where "s1 =
    (if noEmptyFragments opts \<and> url_hash env link = Some ''#''
     then logPageError page (''Empty fragment: '' @ link) s else s)
    \<lparr>testedLinks := testedLinks s @ [url_format_without_hash env link]\<rparr>"
  define s2 where "s2 =
    localLinkCheck env opts page link (fixNonAsciiLink env link)
      (s1\<lparr>requests := requests s1 @ [(HEAD, fixNonAsciiLink env link)]\<rparr>)"
  define s3 where "s3 =
    localLinkCheck env opts page link (fixNonAsciiLink env link)
      (s2\<lparr>requests := requests s2 @ [(GET, fixNonAsciiLink env link)]\<rparr>)"
  have p1: "requests s1 = requests s" "thrown s1 = thrown s"
    "issues s1 = issues s @ empty_fragment_issue env opts page link"
    "written s1 = written s @ map (HostError \<circ> snd) (empty_fragment_issue env opts page link)"
    by (simp_all add: s1_def empty_fragment_issue_def)
  have p2: "requests s2 = requests s @ [(HEAD, fixNonAsciiLink env link)]" "thrown s2 = thrown s"
    "issues s2 = issues s @ empty_fragment_issue env opts page link @
       local_issue env opts page link"
    "written s2 = written s @ map (HostError \<circ> snd) (empty_fragment_issue env opts page link) @
       map (HostError \<circ> snd) (local_issue env opts page link)"
    by (simp_all add: s2_def p1 localLinkCheck_def local_issue_def)
  have p3: "requests s3 =
              requests s @ [(HEAD, fixNonAsciiLink env link), (GET, fixNonAsciiLink env link)]"
    "thrown s3 = thrown s"
    "issues s3 = issues s @ empty_fragment_issue env opts page link @
       local_issue env opts page link @ local_issue env opts page link"
    "written s3 = written s @ map (HostError \<circ> snd) (empty_fragment_issue env opts page link) @
       map (HostError \<circ> snd) (local_issue env opts page link) @
       map (HostError \<circ> snd) (local_issue env opts page link)"
    by (simp_all add: s3_def p2 localLinkCheck_def local_issue_def)
  have t1: "testLink env opts page link False s = requestLink env opts page link False s1"
    unfolding s1_def by (rule testLink_first_time[OF assms(2)])
  have hd: "request env (length (requests s1)) HEAD (fixNonAsciiLink env link)
              (\<not> noRedirects opts) = Responded e1 r1 c1"
    using assms(4) by (simp only: p1)
  have t2: "requestLink env opts page link False s1 = requestLink env opts page link True s2"
    unfolding s2_def by (rule head_then_get[OF assms(1) assms(3) hd assms(5)])
  have l2: "length (requests s2) = Suc (length (requests s))"
    by (simp add: p2)
  have t3: "requestLink env opts page link True s2 =
              (case onReply env opts page link True
                      (request env (Suc (length (requests s))) GET (fixNonAsciiLink env link)
                         (\<not> noRedirects opts)) s3 of
                 Inl s' \<Rightarrow> s' | Inr s' \<Rightarrow> s')"
    using get_retry[OF assms(3), of opts page s2] unfolding s3_def l2 .
  have r: "requests (testLink env opts page link False s) =
             requests s @ [(HEAD, fixNonAsciiLink env link), (GET, fixNonAsciiLink env link)]"
    unfolding t1 t2 t3 by (simp add: p3)
  have g: "\<And>e2 r2 c2.
            request env (Suc (length (requests s))) GET (fixNonAsciiLink env link)
              (\<not> noRedirects opts) = Responded e2 r2 c2 \<Longrightarrow> is_2xx r2 \<Longrightarrow>
            testLink env opts page link False s = host_log (''Link: '' @ link @ ms e2) s3"
    unfolding t1 t2 t3 using assms(1) by (simp add: onReply_def onEnd_def)
  show ?thesis
  proof (intro conjI allI impI)
    show "requests (testLink env opts page link False s) =
            requests s @ [(HEAD, fixNonAsciiLink env link), (GET, fixNonAsciiLink env link)]"
      by (rule r)
  next
    fix e2 r2 c2
    assume a: "request env (Suc (length (requests s))) GET (fixNonAsciiLink env link)
                 (\<not> noRedirects opts) = Responded e2 r2 c2 \<and> is_2xx r2"
    then have eq: "testLink env opts page link False s = host_log (''Link: '' @ link @ ms e2) s3"
      using g by blast
    show "issues (testLink env opts page link False s) =
              issues s @ empty_fragment_issue env opts page link @
              local_issue env opts page link @ local_issue env opts page link"
      unfolding eq by (simp add: p3)
    show "written (testLink env opts page link False s) =
              written s @ map (HostError \<circ> snd) (empty_fragment_issue env opts page link) @
              map (HostError \<circ> snd) (local_issue env opts page link) @
              map (HostError \<circ> snd) (local_issue env opts page link) @
              [HostLog (''Link: '' @ link @ ms e2)]"
      unfolding eq by (simp add: p3)
    show "thrown (testLink env opts page link False s) = thrown s"
      unfolding eq by (simp add: p3)
  qed
qed


definition error_response :: "string \<Rightarrow> response" where
  "error_response u = \<lparr>statusCode = 500, headers = (\<lambda>name. None), href = u\<rparr>"

definition retry_env :: env where
  "retry_env =
     sample_env
       \<lparr>request :=
          (\<lambda>n m u follow. if m = HEAD then Responded 5 (error_response u) []
                           else Responded 6 (ok_response u) [])\<rparr>"

theorem head_failure_is_retried_with_get_witness:
  "\<not> queryHashes no_options \<and>
   url_format_without_hash retry_env ''http://example.com/retry'' \<notin> set (testedLinks initial) \<and>
   requestFor retry_env ''http://example.com/retry'' = Request \<and>
   request retry_env (length (requests initial)) HEAD
     (fixNonAsciiLink retry_env ''http://example.com/retry'') (\<not> noRedirects no_options) =
     Responded 5 (error_response ''http://example.com/retry'') [] \<and>
   \<not> is_2xx (error_response ''http://example.com/retry'') \<and>
   request retry_env (Suc (length (requests initial))) GET
     (fixNonAsciiLink retry_env ''http://example.com/retry'') (\<not> noRedirects no_options) =
     Responded 6 (ok_response ''http://example.com/retry'') [] \<and>
   is_2xx (ok_response ''http://example.com/retry'') \<and>
   requests (testLink retry_env no_options ''http://example.com/'' ''http://example.com/retry''
               False initial) =
     [(HEAD, ''http://example.com/retry''), (GET, ''http://example.com/retry'')] \<and>
   issues (testLink retry_env no_options ''http://example.com/'' ''http://example.com/retry''
             False initial) = []"
proof -
  have u: "fixNonAsciiLink retry_env ''http://example.com/retry'' = ''http://example.com/retry''"
    by code_simp
  have a: "\<not> queryHashes no_options" by (simp add: no_options_def)
  have b: "url_format_without_hash retry_env ''http://example.com/retry'' \<notin> set (testedLinks initial)"
    by (simp add: initial_def)
  have c: "requestFor retry_env ''http://example.com/retry'' = Request"
    by code_simp
  have d: "request retry_env (length (requests initial)) HEAD
     (fixNonAsciiLink retry_env ''http://example.com/retry'') (\<not> noRedirects no_options) =
     Responded 5 (error_response ''http://example.com/retry'') []"
    unfolding u by (simp add: retry_env_def)
  have e: "\<not> is_2xx (error_response ''http://example.com/retry'')"
    by code_simp
  have f: "request retry_env (Suc (length (requests initial))) GET
     (fixNonAsciiLink retry_env ''http://example.com/retry'') (\<not> noRedirects no_options) =
     Responded 6 (ok_response ''http://example.com/retry'') []"
    unfolding u by (simp add: retry_env_def)
  have g: "is_2xx (ok_response ''http://example.com/retry'')"
    by code_simp
  have z: "issues initial @
           empty_fragment_issue retry_env no_options ''http://example.com/'' ''http://example.com/retry'' @
           local_issue retry_env no_options ''http://example.com/'' ''http://example.com/retry'' @
           local_issue retry_env no_options ''http://example.com/'' ''http://example.com/retry'' = []"
    by code_simp
  have q: "requests initial = []" by (simp add: initial_def)
  note t = head_failure_is_retried_with_get[OF a b c d e, of "''http://example.com/''"]
  from t have r: "requests (testLink retry_env no_options ''http://example.com/''
                     ''http://example.com/retry'' False initial) =
     [(HEAD, ''http://example.com/retry''), (GET, ''http://example.com/retry'')]"
    by (simp only: u q append_Nil)
  from t f g have "issues (testLink retry_env no_options ''http://example.com/''
                     ''http://example.com/retry'' False initial) =
           issues initial @
           empty_fragment_issue retry_env no_options ''http://example.com/'' ''http://example.com/retry'' @
           local_issue retry_env no_options ''http://example.com/'' ''http://example.com/retry'' @
           local_issue retry_env no_options ''http://example.com/'' ''http://example.com/retry''"
    by blast
  then have i: "issues (testLink retry_env no_options ''http://example.com/''
                     ''http://example.com/retry'' False initial) = []"
    by (simp only: z)
  show ?thesis using a b c d e f g r i by blast
qed

text \<open>
  Claim C3 says that a link whose probe fails and whose \<open>GET\<close> succeeds has no issue
  recorded for it. Probe 500 and \<open>GET\<close> 200 for a link that ends in \<open>#\<close>, with
  \<open>noEmptyFragments\<close> set: the link passes and the check has recorded an issue.
\<close>

theorem passed_retry_with_issue_counterexample:
  "requests (testLink retry_env (no_options\<lparr>noEmptyFragments := True\<rparr>) ''http://example.com/''
               ''http://example.com/retry#'' False initial) =
     [(HEAD, ''http://example.com/retry#''), (GET, ''http://example.com/retry#'')] \<and>
   written (testLink retry_env (no_options\<lparr>noEmptyFragments := True\<rparr>) ''http://example.com/''
               ''http://example.com/retry#'' False initial) =
     [HostError ''Empty fragment: http://example.com/retry#'',
      HostLog ''Link: http://example.com/retry# (6ms)''] \<and>
   issues (testLink retry_env (no_options\<lparr>noEmptyFragments := True\<rparr>) ''http://example.com/''
             ''http://example.com/retry#'' False initial) =
     [(''http://example.com/'', ''Empty fragment: http://example.com/retry#'')] \<and>
   issues (testLink retry_env (no_options\<lparr>noEmptyFragments := True\<rparr>) ''http://example.com/''
             ''http://example.com/retry#'' False initial) \<noteq> []"
  by code_simp

section \<open>Hash verification\<close>

lemma lower_upper_char: "toLowerCase_char (toUpperCase_char c) = toLowerCase_char c"
  by (simp add: toLowerCase_char_def toUpperCase_char_def)

lemma upper_lower_char: "toUpperCase_char (toLowerCase_char c) = toUpperCase_char c"
  by (simp add: toLowerCase_char_def toUpperCase_char_def)

lemma lower_upper [simp]: "toLowerCase (toUpperCase x) = toLowerCase x"
  by (simp add: toLowerCase_def toUpperCase_def lower_upper_char)

lemma upper_lower [simp]: "toUpperCase (toLowerCase x) = toUpperCase x"
  by (simp add: toLowerCase_def toUpperCase_def upper_lower_char)

lemma same_ignoring_case:
  "toUpperCase a = toUpperCase b \<longleftrightarrow> toLowerCase a = toLowerCase b"
proof
  assume "toUpperCase a = toUpperCase b"
  then have "toLowerCase (toUpperCase a) = toLowerCase (toUpperCase b)" by simp
  then show "toLowerCase a = toLowerCase b" by simp
next
  assume "toLowerCase a = toLowerCase b"
  then have "toUpperCase (toLowerCase a) = toUpperCase (toLowerCase b)" by simp
  then show "toUpperCase a = toUpperCase b" by simp
qed

text \<open>
  The pass of lines 107 to 176 under \<open>queryHashes\<close> for a link whose request is
  answered, by the \<open>request\<close> package or by the file requester: the request is a
  \<open>GET\<close>, the local-link check runs, and the handler of \<open>end\<close> gets the response.
\<close>

lemma attemptLink_answered:
  assumes q: "queryHashes opts"
    and a: "requestFor env link = Request \<and>
            request env (length (requests s)) GET (fixNonAsciiLink env link)
              (\<not> noRedirects opts) = Responded elapsed res content \<or>
            requestFor env link = RequestFile \<and> \<not> noLocalLinks opts \<and>
            requestFile env (length (requests s)) (fixNonAsciiLink env link) =
              Inr (Responded elapsed res content)"
  shows "attemptLink env opts page link False s =
           onReply env opts page link False (Responded elapsed res content)
             (localLinkCheck env opts page link (fixNonAsciiLink env link)
                (s\<lparr>requests := requests s @ [(GET, fixNonAsciiLink env link)]\<rparr>))"
proof -
  have m: "method_of opts False = GET"
    using q by (simp add: method_of_def useGetRequest_def)
  from a show ?thesis
  proof
    assume "requestFor env link = Request \<and>
            request env (length (requests s)) GET (fixNonAsciiLink env link)
              (\<not> noRedirects opts) = Responded elapsed res content"
    then show ?thesis by (simp add: attemptLink_Request m)
  next
    assume "requestFor env link = RequestFile \<and> \<not> noLocalLinks opts \<and>
            requestFile env (length (requests s)) (fixNonAsciiLink env link) =
              Inr (Responded elapsed res content)"
    then show ?thesis by (simp add: attemptLink_def Let_def m localLinkCheck_def)
  qed
qed

definition local_hash_env :: env where
  "local_hash_env =
     sample_env
       \<lparr>url_query :=
          (\<lambda>u name. if name = ''sha1'' \<and> u = ''http://localhost/a.zip?sha1=AB#''
                     then Some (Once ''AB'') else None),
        createHash := (\<lambda>algorithm content. ''ab'')\<rparr>"

definition local_hash_options :: options where
  "local_hash_options =
     no_options\<lparr>queryHashes := True, noLocalLinks := True, noEmptyFragments := True\<rparr>"

text \<open>
  Claim C4 says that a link whose digest agrees has no issue recorded. The link
  \<open>http://localhost/a.zip?sha1=AB#\<close> with \<open>queryHashes\<close>, \<open>noLocalLinks\<close> and
  \<open>noEmptyFragments\<close> set, answered with status 200 and a content whose digest is
  \<open>ab\<close>: the check writes the \<open>Hash\<close> line and has recorded two issues.
\<close>

theorem matching_hash_with_issues_counterexample:
  "linkHash local_hash_env local_hash_options ''http://localhost/a.zip?sha1=AB#'' =
     Some (Once ''AB'', Sha1) \<and>
   toLowerCase ''AB'' = toLowerCase (createHash local_hash_env Sha1 []) \<and>
   requests (testLink local_hash_env local_hash_options ''http://example.com/''
               ''http://localhost/a.zip?sha1=AB#'' False initial) =
     [(GET, ''http://localhost/a.zip?sha1=AB#'')] \<and>
   written (testLink local_hash_env local_hash_options ''http://example.com/''
              ''http://localhost/a.zip?sha1=AB#'' False initial) =
     [HostError ''Empty fragment: http://localhost/a.zip?sha1=AB#'',
      HostError ''Local link: http://localhost/a.zip?sha1=AB#'',
      HostLog ''Link: http://localhost/a.zip?sha1=AB# (0ms)'',
      HostLog ''Hash: http://localhost/a.zip?sha1=AB#''] \<and>
   issues (testLink local_hash_env local_hash_options ''http://example.com/''
             ''http://localhost/a.zip?sha1=AB#'' False initial) =
     [(''http://example.com/'', ''Empty fragment: http://localhost/a.zip?sha1=AB#''),
      (''http://example.com/'', ''Local link: http://localhost/a.zip?sha1=AB#'')] \<and>
   issues (testLink local_hash_env local_hash_options ''http://example.com/''
             ''http://localhost/a.zip?sha1=AB#'' False initial) \<noteq> []"
  by code_simp

text \<open>
  Claim C4, amended. A link check (not a retry, link not yet tested) for a link with an
  expected digest (the \<open>sha1\<close>, else \<open>md5\<close>, else \<open>crc32\<close> parameter, read
  under \<open>queryHashes\<close>) makes one request, a \<open>GET\<close>. When that is answered with a
  status from 200 to 299 and the parameter occurs once, the digest of the content is
  compared with its value ignoring case. If they agree the check writes the \<open>Link\<close>
  line and the \<open>Hash\<close> line, throws nothing, and the issues it has recorded are those
  of the policy checks alone (the empty-fragment issue and the local-link issue, where
  their options are set and they apply). If they differ it records after those exactly
  one more issue, \<open>Hash error\<close> with the computed digest in lower case. When the
  parameter occurs several times its value is an array: the check writes the
  \<open>Link\<close> line and then throws, with no hash issue recorded.
\<close>

theorem hash_is_verified:
  assumes "linkHash env opts link = Some (v, algorithm)"
    and "url_format_without_hash env link \<notin> set (testedLinks s)"
    and "requestFor env link = Request \<and>
         request env (length (requests s)) GET (fixNonAsciiLink env link)
           (\<not> noRedirects opts) = Responded elapsed res content \<or>
         requestFor env link = RequestFile \<and> \<not> noLocalLinks opts \<and>
         requestFile env (length (requests s)) (fixNonAsciiLink env link) =
           Inr (Responded elapsed res content)"
    and "is_2xx res"
  shows "requests (testLink env opts page link False s) =
           requests s @ [(GET, fixNonAsciiLink env link)] \<and>
         (\<forall>expected.
            v = Once expected \<and>
            toLowerCase expected = toLowerCase (createHash env algorithm content) \<longrightarrow>
            issues (testLink env opts page link False s) =
              issues s @ empty_fragment_issue env opts page link @
              local_issue env opts page link \<and>
            written (testLink env opts page link False s) =
              written s @ map (HostError \<circ> snd) (empty_fragment_issue env opts page link) @
              map (HostError \<circ> snd) (local_issue env opts page link) @
              [HostLog (''Link: '' @ link @ ms elapsed), HostLog (''Hash: '' @ link)] \<and>
            thrown (testLink env opts page link False s) = thrown s) \<and>
         (\<forall>expected.
            v = Once expected \<and>
            toLowerCase expected \<noteq> toLowerCase (createHash env algorithm content) \<longrightarrow>
            issues (testLink env opts page link False s) =
              issues s @ empty_fragment_issue env opts page link @
              local_issue env opts page link @
              [(page, ''Hash error ('' @ toLowerCase (createHash env algorithm content) @
                      ''): '' @ link)] \<and>
            written (testLink env opts page link False s) =
              written s @ map (HostError \<circ> snd) (empty_fragment_issue env opts page link) @
              map (HostError \<circ> snd) (local_issue env opts page link) @
              [HostLog (''Link: '' @ link @ ms elapsed),
               HostError (''Hash error ('' @ toLowerCase (createHash env algorithm content) @
                          ''): '' @ link)] \<and>
            thrown (testLink env opts page link False s) = thrown s) \<and>
         (\<forall>xs.
            v = Many xs \<longrightarrow>
            issues (testLink env opts page link False s) =
              issues s @ empty_fragment_issue env opts page link @
              local_issue env opts page link \<and>
            written (testLink env opts page link False s) =
              written s @ map (HostError \<circ> snd) (empty_fragment_issue env opts page link) @
              map (HostError \<circ> snd) (local_issue env opts page link) @
              [HostLog (''Link: '' @ link @ ms elapsed)] \<and>
            thrown (testLink env opts page link False s) =
              Some ''TypeError: linkHash.toUpperCase is not a function'')"
proof -
  define s1 where "s1 =
    (if noEmptyFragments opts \<and> url_hash env link = Some ''#''
     then logPageError page (''Empty fragment: '' @ link) s else s)
    \<lparr>testedLinks := testedLinks s @ [url_format_without_hash env link]\<rparr>"
  define s2 where "s2 =
    localLinkCheck env opts page link (fixNonAsciiLink env link)
      (s1\<lparr>requests := requests s1 @ [(GET, fixNonAsciiLink env link)]\<rparr>)"
  define digest where "digest = createHash env algorithm content"
  have q: "queryHashes opts"
    using assms(1) by (rule linkHash_needs_queryHashes)
  have u: "useGetRequest opts False"
    using q by (simp add: useGetRequest_def)
  have p1: "requests s1 = requests s"
    by (simp add: s1_def)
  have p2: "requests s2 = requests s @ [(GET, fixNonAsciiLink env link)]"
    "thrown s2 = thrown s"
    "issues s2 = issues s @ empty_fragment_issue env opts page link @
       local_issue env opts page link"
    "written s2 = written s @ map (HostError \<circ> snd) (empty_fragment_issue env opts page link) @
       map (HostError \<circ> snd) (local_issue env opts page link)"
    by (simp_all add: s2_def s1_def localLinkCheck_def local_issue_def empty_fragment_issue_def)
  have t1: "testLink env opts page link False s = requestLink env opts page link False s1"
    unfolding s1_def by (rule testLink_first_time[OF assms(2)])
  have a: "requestFor env link = Request \<and>
           request env (length (requests s1)) GET (fixNonAsciiLink env link)
             (\<not> noRedirects opts) = Responded elapsed res content \<or>
           requestFor env link = RequestFile \<and> \<not> noLocalLinks opts \<and>
           requestFile env (length (requests s1)) (fixNonAsciiLink env link) =
             Inr (Responded elapsed res content)"
    using assms(3) by (simp only: p1)
  have t2: "requestLink env opts page link False s1 =
              (case onReply env opts page link False (Responded elapsed res content) s2 of
                 Inl s' \<Rightarrow> s' | Inr s' \<Rightarrow> s')"
    unfolding s2_def by (simp only: requestLink_full[OF u] attemptLink_answered[OF q a])
  have once: "\<And>expected. v = Once expected \<Longrightarrow>
                testLink env opts page link False s =
                  (if toUpperCase expected = toUpperCase digest
                   then host_log (''Hash: '' @ link) (host_log (''Link: '' @ link @ ms elapsed) s2)
                   else logPageError page (''Hash error ('' @ toLowerCase digest @ ''): '' @ link)
                          (host_log (''Link: '' @ link @ ms elapsed) s2))"
    unfolding t1 t2 digest_def using assms(1) assms(4)
    by (simp add: onReply_def onEnd_def Let_def)
  have many: "\<And>xs. v = Many xs \<Longrightarrow>
                testLink env opts page link False s =
                  throw ''TypeError: linkHash.toUpperCase is not a function''
                    (host_log (''Link: '' @ link @ ms elapsed) s2)"
    unfolding t1 t2 using assms(1) assms(4)
    by (simp add: onReply_def onEnd_def Let_def)
  have r: "requests (testLink env opts page link False s) =
             requests s @ [(GET, fixNonAsciiLink env link)]"
    unfolding t1 t2 by (simp add: p2)
  show ?thesis
  proof (intro conjI allI impI)
    show "requests (testLink env opts page link False s) =
            requests s @ [(GET, fixNonAsciiLink env link)]"
      by (rule r)
  next
    fix expected
    assume h: "v = Once expected \<and>
               toLowerCase expected = toLowerCase (createHash env algorithm content)"
    then have m: "toUpperCase expected = toUpperCase digest"
      by (simp only: same_ignoring_case digest_def)
    have eq: "testLink env opts page link False s =
                host_log (''Hash: '' @ link) (host_log (''Link: '' @ link @ ms elapsed) s2)"
      using once h m by simp
    show "issues (testLink env opts page link False s) =
            issues s @ empty_fragment_issue env opts page link @
            local_issue env opts page link"
      unfolding eq by (simp add: p2)
    show "written (testLink env opts page link False s) =
            written s @ map (HostError \<circ> snd) (empty_fragment_issue env opts page link) @
            map (HostError \<circ> snd) (local_issue env opts page link) @
            [HostLog (''Link: '' @ link @ ms elapsed), HostLog (''Hash: '' @ link)]"
      unfolding eq by (simp add: p2)
    show "thrown (testLink env opts page link False s) = thrown s"
      unfolding eq by (simp add: p2)
  next
    fix expected
    assume h: "v = Once expected \<and>
               toLowerCase expected \<noteq> toLowerCase (createHash env algorithm content)"
    then have m: "toUpperCase expected \<noteq> toUpperCase digest"
      by (simp only: same_ignoring_case digest_def not_False_eq_True)
    have eq: "testLink env opts page link False s =
                logPageError page (''Hash error ('' @ toLowerCase digest @ ''): '' @ link)
                  (host_log (''Link: '' @ link @ ms elapsed) s2)"
      using once h m by simp
    show "issues (testLink env opts page link False s) =
            issues s @ empty_fragment_issue env opts page link @
            local_issue env opts page link @
            [(page, ''Hash error ('' @ toLowerCase (createHash env algorithm content) @
                    ''): '' @ link)]"
      unfolding eq by (simp add: p2 digest_def)
    show "written (testLink env opts page link False s) =
            written s @ map (HostError \<circ> snd) (empty_fragment_issue env opts page link) @
            map (HostError \<circ> snd) (local_issue env opts page link) @
            [HostLog (''Link: '' @ link @ ms elapsed),
             HostError (''Hash error ('' @ toLowerCase (createHash env algorithm content) @
                        ''): '' @ link)]"
      unfolding eq by (simp add: p2 digest_def)
    show "thrown (testLink env opts page link False s) = thrown s"
      unfolding eq by (simp add: p2)
  next
    fix xs
    assume h: "v = Many xs"
    note eq = many[OF h]
    show "issues (testLink env opts page link False s) =
            issues s @ empty_fragment_issue env opts page link @
            local_issue env opts page link"
      unfolding eq by (simp add: p2)
    show "written (testLink env opts page link False s) =
            written s @ map (HostError \<circ> snd) (empty_fragment_issue env opts page link) @
            map (HostError \<circ> snd) (local_issue env opts page link) @
            [HostLog (''Link: '' @ link @ ms elapsed)]"
      unfolding eq by (simp add: p2)
    show "thrown (testLink env opts page link False s) =
            Some ''TypeError: linkHash.toUpperCase is not a function''"
      unfolding eq by simp
  qed
qed

definition other_digest_env :: env where
  "other_digest_env = hash_env\<lparr>createHash := (\<lambda>algorithm content. ''cd'')\<rparr>"

definition repeated_env :: env where
  "repeated_env =
     sample_env
       \<lparr>url_query :=
          (\<lambda>u name. if name = ''sha1'' \<and> u = ''file:test/a.zip?sha1=AB&sha1=CD''
                     then Some (Many [''AB'', ''CD'']) else None),
        fs_read := (\<lambda>n path. (4, Inr ''zip''))\<rparr>"

theorem hash_is_verified_witness:
  "linkHash hash_env hash_options ''http://example.com/a.zip?sha1=AB'' =
     Some (Once ''AB'', Sha1) \<and>
   url_format_without_hash hash_env ''http://example.com/a.zip?sha1=AB'' \<notin>
     set (testedLinks initial) \<and>
   requestFor hash_env ''http://example.com/a.zip?sha1=AB'' = Request \<and>
   request hash_env (length (requests initial)) GET
     (fixNonAsciiLink hash_env ''http://example.com/a.zip?sha1=AB'')
     (\<not> noRedirects hash_options) =
     Responded 0 (ok_response ''http://example.com/a.zip?sha1=AB'') [] \<and>
   is_2xx (ok_response ''http://example.com/a.zip?sha1=AB'') \<and>
   toLowerCase ''AB'' = toLowerCase (createHash hash_env Sha1 []) \<and>
   issues (testLink hash_env hash_options ''http://example.com/''
             ''http://example.com/a.zip?sha1=AB'' False initial) = [] \<and>
   written (testLink hash_env hash_options ''http://example.com/''
              ''http://example.com/a.zip?sha1=AB'' False initial) =
     [HostLog ''Link: http://example.com/a.zip?sha1=AB (0ms)'',
      HostLog ''Hash: http://example.com/a.zip?sha1=AB''] \<and>
   toLowerCase ''AB'' \<noteq> toLowerCase (createHash other_digest_env Sha1 []) \<and>
   issues (testLink other_digest_env hash_options ''http://example.com/''
             ''http://example.com/a.zip?sha1=AB'' False initial) =
     [(''http://example.com/'', ''Hash error (cd): http://example.com/a.zip?sha1=AB'')] \<and>
   linkHash repeated_env hash_options ''file:test/a.zip?sha1=AB&sha1=CD'' =
     Some (Many [''AB'', ''CD''], Sha1) \<and>
   requestFor repeated_env ''file:test/a.zip?sha1=AB&sha1=CD'' = RequestFile \<and>
   \<not> noLocalLinks hash_options \<and>
   requestFile repeated_env (length (requests initial))
     (fixNonAsciiLink repeated_env ''file:test/a.zip?sha1=AB&sha1=CD'') =
     Inr (Responded 4 (responseFor ''file:test/a.zip?sha1=AB&sha1=CD'') ''zip'') \<and>
   is_2xx (responseFor ''file:test/a.zip?sha1=AB&sha1=CD'') \<and>
   thrown (testLink repeated_env hash_options ''file:test/''
             ''file:test/a.zip?sha1=AB&sha1=CD'' False initial) =
     Some ''TypeError: linkHash.toUpperCase is not a function''"
proof -
  let ?l = "''http://example.com/a.zip?sha1=AB''"
  let ?f = "''file:test/a.zip?sha1=AB&sha1=CD''"
  let ?p = "''http://example.com/''"
  have u: "fixNonAsciiLink hash_env ?l = ?l" "fixNonAsciiLink other_digest_env ?l = ?l"
    "fixNonAsciiLink repeated_env ?f = ?f"
    by code_simp+
  have a: "linkHash hash_env hash_options ?l = Some (Once ''AB'', Sha1)"
    by code_simp
  have a': "linkHash other_digest_env hash_options ?l = Some (Once ''AB'', Sha1)"
    by code_simp
  have a'': "linkHash repeated_env hash_options ?f = Some (Many [''AB'', ''CD''], Sha1)"
    by code_simp
  have b: "url_format_without_hash hash_env ?l \<notin> set (testedLinks initial)"
    "url_format_without_hash other_digest_env ?l \<notin> set (testedLinks initial)"
    "url_format_without_hash repeated_env ?f \<notin> set (testedLinks initial)"
    by (simp_all add: initial_def)
  have c: "requestFor hash_env ?l = Request" "requestFor other_digest_env ?l = Request"
    "requestFor repeated_env ?f = RequestFile"
    by code_simp+
  have n: "\<not> noLocalLinks hash_options"
    by (simp add: hash_options_def no_options_def)
  have d: "request hash_env (length (requests initial)) GET (fixNonAsciiLink hash_env ?l)
             (\<not> noRedirects hash_options) = Responded 0 (ok_response ?l) []"
    unfolding u by (simp add: hash_env_def sample_env_def)
  have d': "request other_digest_env (length (requests initial)) GET
              (fixNonAsciiLink other_digest_env ?l)
              (\<not> noRedirects hash_options) = Responded 0 (ok_response ?l) []"
    unfolding u by (simp add: other_digest_env_def hash_env_def sample_env_def)
  have d'': "requestFile repeated_env (length (requests initial))
               (fixNonAsciiLink repeated_env ?f) = Inr (Responded 4 (responseFor ?f) ''zip'')"
    unfolding u
    by (simp add: requestFile_def ensureFileProtocol_def repeated_env_def sample_env_def
        sample_protocol_def)
  have e: "is_2xx (ok_response ?l)" "is_2xx (responseFor ?f)"
    by code_simp+
  have m: "toLowerCase ''AB'' = toLowerCase (createHash hash_env Sha1 [])"
    by code_simp
  have m': "toLowerCase ''AB'' \<noteq> toLowerCase (createHash other_digest_env Sha1 [])"
    by code_simp
  have z: "issues initial @ empty_fragment_issue hash_env hash_options ?p ?l @
             local_issue hash_env hash_options ?p ?l = []"
    "written initial @ map (HostError \<circ> snd) (empty_fragment_issue hash_env hash_options ?p ?l) @
       map (HostError \<circ> snd) (local_issue hash_env hash_options ?p ?l) @
       [HostLog (''Link: '' @ ?l @ ms 0), HostLog (''Hash: '' @ ?l)] =
     [HostLog ''Link: http://example.com/a.zip?sha1=AB (0ms)'',
      HostLog ''Hash: http://example.com/a.zip?sha1=AB'']"
    "issues initial @ empty_fragment_issue other_digest_env hash_options ?p ?l @
       local_issue other_digest_env hash_options ?p ?l @
       [(?p, ''Hash error ('' @ toLowerCase (createHash other_digest_env Sha1 []) @ ''): '' @ ?l)] =
     [(?p, ''Hash error (cd): http://example.com/a.zip?sha1=AB'')]"
    by code_simp+
  note t = hash_is_verified[OF a b(1) disjI1[OF conjI[OF c(1) d]] e(1), of ?p]
  note t' = hash_is_verified[OF a' b(2) disjI1[OF conjI[OF c(2) d']] e(1), of ?p]
  note t'' = hash_is_verified[OF a'' b(3) disjI2[OF conjI[OF c(3) conjI[OF n d'']]] e(2),
      of "''file:test/''"]
  from t m have x: "issues (testLink hash_env hash_options ?p ?l False initial) =
      issues initial @ empty_fragment_issue hash_env hash_options ?p ?l @
      local_issue hash_env hash_options ?p ?l"
    "written (testLink hash_env hash_options ?p ?l False initial) =
      written initial @ map (HostError \<circ> snd) (empty_fragment_issue hash_env hash_options ?p ?l) @
      map (HostError \<circ> snd) (local_issue hash_env hash_options ?p ?l) @
      [HostLog (''Link: '' @ ?l @ ms 0), HostLog (''Hash: '' @ ?l)]"
    by blast+
  from t' m' have y: "issues (testLink other_digest_env hash_options ?p ?l False initial) =
      issues initial @ empty_fragment_issue other_digest_env hash_options ?p ?l @
      local_issue other_digest_env hash_options ?p ?l @
      [(?p, ''Hash error ('' @ toLowerCase (createHash other_digest_env Sha1 []) @ ''): '' @ ?l)]"
    by blast
  from t'' have w: "thrown (testLink repeated_env hash_options ''file:test/'' ?f False initial) =
      Some ''TypeError: linkHash.toUpperCase is not a function''"
    by blast
  have x': "issues (testLink hash_env hash_options ?p ?l False initial) = []"
    "written (testLink hash_env hash_options ?p ?l False initial) =
       [HostLog ''Link: http://example.com/a.zip?sha1=AB (0ms)'',
        HostLog ''Hash: http://example.com/a.zip?sha1=AB'']"
    using x by (simp_all only: z)
  have y': "issues (testLink other_digest_env hash_options ?p ?l False initial) =
       [(?p, ''Hash error (cd): http://example.com/a.zip?sha1=AB'')]"
    using y by (simp only: z)
  show ?thesis using a b(1) c(1) d e m m' a'' c(3) n d'' x' y' w by blast
qed

section \<open>Cache headers\<close>

lemma rx_test_Lit: "rx_test False (Lit l) (pre @ l @ suf)"
proof -
  have "rx_ends False (Lit l) (pre @ l @ suf) (length pre) \<noteq> []"
    by (simp add: lit_eq_def)
  moreover have "length pre \<in> set [0..<Suc (length (pre @ l @ suf))]"
    by simp
  ultimately show ?thesis
    unfolding rx_test_def list_ex_iff by blast
qed

lemma rx_test_Alt: "rx_test ci (Alt a b) s \<longleftrightarrow> rx_test ci a s \<or> rx_test ci b s"
  by (auto simp: rx_test_def list_ex_iff)

lemma rx_test_alts_Cons: "rs \<noteq> [] \<Longrightarrow> rx_test ci (alts (r # rs)) s \<longleftrightarrow> rx_test ci r s \<or> rx_test ci (alts rs) s"
  by (cases rs) (simp_all add: rx_test_Alt)

lemma rx_test_alts: "r \<in> set rs \<Longrightarrow> rx_test ci r s \<Longrightarrow> rx_test ci (alts rs) s"
proof (induction rs)
  case Nil
  then show ?case by simp
next
  case (Cons a rs)
  show ?case
  proof (cases "rs = []")
    case True
    then show ?thesis using Cons.prems by simp
  next
    case False
    then show ?thesis using Cons by (auto simp: rx_test_alts_Cons)
  qed
qed

text \<open>\<open>contains s l\<close>: the string \<open>l\<close> occurs in \<open>s\<close>.\<close>

definition contains :: "string \<Rightarrow> string \<Rightarrow> bool" where
  "contains s l = (\<exists>pre suf. s = pre @ l @ suf)"

lemma contains_no_cache_vocabulary:
  assumes "contains c ''no-cache'' \<or> contains c ''max-age=0''"
  shows "rx_test False cacheControl_vocabulary c" and "rx_test False not_cached_pattern c"
    and "c \<noteq> []"
proof -
  from assms consider pre suf where "c = pre @ ''no-cache'' @ suf"
    | pre suf where "c = pre @ ''max-age=0'' @ suf"
    by (auto simp: contains_def)
  then show "rx_test False not_cached_pattern c"
  proof cases
    case 1
    have "rx_test False (Lit ''no-cache'') c" unfolding 1 by (rule rx_test_Lit)
    then show ?thesis by (simp add: not_cached_pattern_def rx_test_Alt)
  next
    case 2
    have "rx_test False (Lit ''max-age=0'') c" unfolding 2 by (rule rx_test_Lit)
    then show ?thesis by (simp add: not_cached_pattern_def rx_test_Alt)
  qed
  from assms show "c \<noteq> []"
    by (auto simp: contains_def)
  from assms consider pre suf where "c = pre @ ''no-cache'' @ suf"
    | pre suf where "c = pre @ ''max-age'' @ (''=0'' @ suf)"
    by (auto simp: contains_def)
  then show "rx_test False cacheControl_vocabulary c"
  proof cases
    case 1
    have "rx_test False (Lit ''no-cache'') c" unfolding 1 by (rule rx_test_Lit)
    then show ?thesis
      unfolding cacheControl_vocabulary_def by (rule rx_test_alts[rotated]) simp
  next
    case 2
    have "rx_test False (Lit ''max-age'') c" unfolding 2 by (rule rx_test_Lit)
    then show ?thesis
      unfolding cacheControl_vocabulary_def by (rule rx_test_alts[rotated]) simp
  qed
qed

lemma checkCaching_block_not_cached:
  assumes "headers res ''cache-control'' = Some c"
    and "contains c ''no-cache'' \<or> contains c ''max-age=0''"
    and "\<not> truthy (headers res ''etag'')"
  shows "checkCaching_block page res s = s"
  using assms contains_no_cache_vocabulary[OF assms(2)]
  by (simp add: checkCaching_block_def cacheControl_check_def etag_check_def truthy_def)

lemma checkCaching_block_no_headers:
  assumes "headers res ''cache-control'' = None"
    and "\<not> truthy (headers res ''etag'')"
  shows "checkCaching_block page res s =
           logPageError page ''Missing ETag header in response''
             (logPageError page ''Missing Cache-Control header in response'' s)"
  using assms
  by (simp add: checkCaching_block_def cacheControl_check_def etag_check_def truthy_def)

lemma issues_checkLinks_block [simp]:
  "issues (checkLinks_block env opts page content s) = issues s"
  by (simp add: checkLinks_block_queue)

text \<open>The issues of lines 244 to 262 for a response.\<close>

definition caching_issues :: "string \<Rightarrow> response \<Rightarrow> (string \<times> string) list" where
  "caching_issues page res = issues (checkCaching_block page res initial)"

lemma issues_checkCaching_block:
  "issues (checkCaching_block page res a) = issues a @ caching_issues page res"
  by (auto simp: caching_issues_def checkCaching_block_def cacheControl_check_def etag_check_def
      initial_def split: option.splits)

lemma onPage_only_caching:
  assumes "checkCaching opts" and "\<not> checkXhtml opts" and "maxResponseTime opts = None"
    and "\<not> checkCompression opts" and "is_2xx res"
  shows "issues (onPage env opts page (Responded elapsed res content) s) =
           issues (checkCaching_block page res s)"
proof -
  have "\<not> (statusCode res < 200 \<or> 300 \<le> statusCode res)"
    using assms(5) by (auto simp: is_2xx_def)
  then have "issues (onPage env opts page (Responded elapsed res content) s) =
        issues s @ caching_issues page res"
    using assms(1-4)
    by (simp add: onPage_def Let_def maxResponseTime_block_def issues_checkCaching_block)
  then show ?thesis by (simp add: issues_checkCaching_block)
qed

text \<open>
  Claim C6, amended. With \<open>checkCaching\<close> the only check of the response that is
  enabled, a page response with a status from 200 to 299 and no \<open>ETag\<close> header
  records no issue when its \<open>Cache-Control\<close> header contains \<open>no-cache\<close> or
  \<open>max-age=0\<close>, and records exactly two issues when it has no \<open>Cache-Control\<close>
  header: the missing \<open>Cache-Control\<close> header and then the missing \<open>ETag\<close>
  header, since the waiver of line 259 needs a \<open>Cache-Control\<close> header to read.
\<close>

theorem caching_without_etag:
  assumes "checkCaching opts" and "\<not> checkXhtml opts" and "maxResponseTime opts = None"
    and "\<not> checkCompression opts" and "is_2xx res"
    and "\<not> truthy (headers res ''etag'')"
  shows "(\<forall>c. headers res ''cache-control'' = Some c \<and>
              (contains c ''no-cache'' \<or> contains c ''max-age=0'') \<longrightarrow>
              issues (onPage env opts page (Responded elapsed res content) s) = issues s) \<and>
         (headers res ''cache-control'' = None \<longrightarrow>
            issues (onPage env opts page (Responded elapsed res content) s) =
              issues s @ [(page, ''Missing Cache-Control header in response''),
                          (page, ''Missing ETag header in response'')])"
proof (intro conjI allI impI)
  fix c
  assume "headers res ''cache-control'' = Some c \<and>
              (contains c ''no-cache'' \<or> contains c ''max-age=0'')"
  then have "checkCaching_block page res s = s"
    using checkCaching_block_not_cached assms(6) by blast
  then show "issues (onPage env opts page (Responded elapsed res content) s) = issues s"
    by (simp add: onPage_only_caching[OF assms(1-5)])
next
  assume "headers res ''cache-control'' = None"
  then show "issues (onPage env opts page (Responded elapsed res content) s) =
              issues s @ [(page, ''Missing Cache-Control header in response''),
                          (page, ''Missing ETag header in response'')]"
    by (simp add: onPage_only_caching[OF assms(1-5)] checkCaching_block_no_headers[OF _ assms(6)])
qed

definition no_cache_response :: "string \<Rightarrow> response" where
  "no_cache_response u =
     \<lparr>statusCode = 200,
      headers = (\<lambda>name. if name = ''cache-control'' then Some ''no-cache'' else None),
      href = u\<rparr>"

definition caching_options :: options where
  "caching_options = no_options\<lparr>checkCaching := True\<rparr>"

theorem caching_without_etag_witness:
  "checkCaching caching_options \<and> \<not> checkXhtml caching_options \<and>
   maxResponseTime caching_options = None \<and> \<not> checkCompression caching_options \<and>
   is_2xx (no_cache_response ''http://example.com/'') \<and>
   \<not> truthy (headers (no_cache_response ''http://example.com/'') ''etag'') \<and>
   headers (no_cache_response ''http://example.com/'') ''cache-control'' = Some ''no-cache'' \<and>
   contains ''no-cache'' ''no-cache'' \<and>
   issues (onPage sample_env caching_options ''http://example.com/''
             (Responded 0 (no_cache_response ''http://example.com/'') []) initial) =
     issues initial \<and>
   is_2xx (ok_response ''http://example.com/'') \<and>
   \<not> truthy (headers (ok_response ''http://example.com/'') ''etag'') \<and>
   headers (ok_response ''http://example.com/'') ''cache-control'' = None \<and>
   issues (onPage sample_env caching_options ''http://example.com/''
             (Responded 0 (ok_response ''http://example.com/'') []) initial) =
     issues initial @
     [(''http://example.com/'', ''Missing Cache-Control header in response''),
      (''http://example.com/'', ''Missing ETag header in response'')]"
proof -
  have o: "checkCaching caching_options" "\<not> checkXhtml caching_options"
    "maxResponseTime caching_options = None" "\<not> checkCompression caching_options"
    by (simp_all add: caching_options_def no_options_def)
  have a: "is_2xx (no_cache_response ''http://example.com/'')"
    "\<not> truthy (headers (no_cache_response ''http://example.com/'') ''etag'')"
    "headers (no_cache_response ''http://example.com/'') ''cache-control'' = Some ''no-cache''"
    by (simp_all add: no_cache_response_def is_2xx_def truthy_def)
  have b: "is_2xx (ok_response ''http://example.com/'')"
    "\<not> truthy (headers (ok_response ''http://example.com/'') ''etag'')"
    "headers (ok_response ''http://example.com/'') ''cache-control'' = None"
    by (simp_all add: ok_response_def is_2xx_def truthy_def)
  have c: "contains ''no-cache'' ''no-cache''"
    unfolding contains_def by (intro exI[of _ "[]"]) simp
  note t1 = caching_without_etag[OF o a(1) a(2), of sample_env "''http://example.com/''" 0 "[]" initial]
  note t2 = caching_without_etag[OF o b(1) b(2), of sample_env "''http://example.com/''" 0 "[]" initial]
  from t1 a(3) c have x: "issues (onPage sample_env caching_options ''http://example.com/''
             (Responded 0 (no_cache_response ''http://example.com/'') []) initial) =
     issues initial"
    by blast
  from t2 b(3) have y: "issues (onPage sample_env caching_options ''http://example.com/''
             (Responded 0 (ok_response ''http://example.com/'') []) initial) =
     issues initial @
     [(''http://example.com/'', ''Missing Cache-Control header in response''),
      (''http://example.com/'', ''Missing ETag header in response'')]"
    by blast
  show ?thesis using o a b c x y by blast
qed


text \<open>
  Claim C6 says that a response with neither header yields exactly one issue. It yields
  two.
\<close>

theorem missing_cache_control_two_issues_counterexample:
  "headers (ok_response ''http://example.com/'') ''cache-control'' = None \<and>
   headers (ok_response ''http://example.com/'') ''etag'' = None \<and>
   issues (onPage sample_env caching_options ''http://example.com/''
             (Responded 0 (ok_response ''http://example.com/'') []) initial) =
     [(''http://example.com/'', ''Missing Cache-Control header in response''),
      (''http://example.com/'', ''Missing ETag header in response'')] \<and>
   length (issues (onPage sample_env caching_options ''http://example.com/''
             (Responded 0 (ok_response ''http://example.com/'') []) initial)) \<noteq> 1"
  by code_simp

section \<open>Tracked elements\<close>

definition media_env :: env where
  "media_env =
     sample_env
       \<lparr>cheerio_load :=
          (\<lambda>content.
             [(''video'', [(''poster'', ''http://example.com/poster.png'')]),
              (''img'', [(''srcset'', ''http://example.com/wide.png 2x'')]),
              (''source'', [(''srcset'', ''http://example.com/narrow.png'')]),
              (''a'', [(''href'', ''http://example.com/link'')])])\<rparr>"

definition media_options :: options where
  "media_options = no_options\<lparr>pageUrls := [''http://example.com/''], checkLinks := True\<rparr>"

text \<open>
  Claim C7 lists sixteen pairs of element and attribute. The list of lines 223 to 225
  has thirteen: \<open>img srcset\<close>, \<open>source srcset\<close> and \<open>video poster\<close> are not
  in it. For a page with a \<open>video\<close> that has a \<open>poster\<close>, an \<open>img\<close> and a
  \<open>source\<close> with a \<open>srcset\<close>, and an anchor, the run checks the anchor's link and
  nothing else, and reports no issue.
\<close>

theorem poster_and_srcset_not_checked:
  "(''video'', ''poster'') \<notin> set link_pairs \<and>
   (''img'', ''srcset'') \<notin> set link_pairs \<and>
   (''source'', ''srcset'') \<notin> set link_pairs \<and>
   length link_pairs = 13 \<and>
   invoked (checkPages media_env media_options) =
     [TestPage ''http://example.com/'',
      TestLink ''http://example.com/'' ''http://example.com/link'',
      Finish] \<and>
   requests (checkPages media_env media_options) =
     [(GET, ''http://example.com/''), (HEAD, ''http://example.com/link'')] \<and>
   issues (checkPages media_env media_options) = []"
  by code_simp

text \<open>
  Claim C7, amended. With \<open>checkLinks\<close> set, a page that was fetched with a status
  from 200 to 299 has a link check put at the head of the queue for each occurrence, with
  a value that is not empty, of each of the thirteen pairs of lines 223 to 225: pair by
  pair in the order of the list, and within a pair in document order. The link is the
  value resolved against the address the response came from, and it is kept when it
  passes the filters of lines 188 to 190 (protocol, same domain, links to ignore).
\<close>

theorem tracked_pairs_are_checked:
  assumes "checkLinks opts"
    and "requestFor env page = Request \<and>
         request env (length (requests s)) GET (fixNonAsciiLink env page) True =
           Responded elapsed res content \<or>
         requestFor env page = RequestFile \<and>
         requestFile_get env (length (requests s)) (fixNonAsciiLink env page) =
           Inr (Responded elapsed res content)"
    and "is_2xx res"
  shows "pendingCallbacks (testPage env opts page s) =
           concat
             (map (\<lambda>(element, attribute).
                     map (\<lambda>e. TestLink (href res) (resolvedLink env (href res) attribute e))
                       (filter (\<lambda>e. fst e = element \<and> truthy (map_of (snd e) attribute) \<and>
                                     link_wanted env opts (href res)
                                       (resolvedLink env (href res) attribute e))
                          (cheerio_load env content)))
                [(''a'', ''href''), (''area'', ''href''), (''audio'', ''src''),
                 (''embed'', ''src''), (''iframe'', ''src''), (''img'', ''src''),
                 (''input'', ''src''), (''link'', ''href''), (''object'', ''data''),
                 (''script'', ''src''), (''source'', ''src''), (''track'', ''src''),
                 (''video'', ''src'')]) @
           pendingCallbacks s"
proof -
  have r: "testPage env opts page s =
             onPage env opts page (Responded elapsed res content)
               (s\<lparr>requests := requests s @ [(GET, fixNonAsciiLink env page)]\<rparr>)"
    using assms(2) by (auto simp: testPage_def Let_def)
  have l: "reply_links env opts (Responded elapsed res content) =
             map (TestLink (href res))
               (page_links env opts (href res) (cheerio_load env content) link_pairs)"
    using assms(1) assms(3) by (auto simp: reply_links_def is_2xx_def)
  show ?thesis
    unfolding r onPage_queue l
    by (simp add: page_links_def link_pairs_def each_links_filter comp_def)
qed

theorem tracked_pairs_are_checked_witness:
  "checkLinks media_options \<and>
   requestFor media_env ''http://example.com/'' = Request \<and>
   request media_env (length (requests initial)) GET
     (fixNonAsciiLink media_env ''http://example.com/'') True =
     Responded 0 (ok_response ''http://example.com/'') [] \<and>
   is_2xx (ok_response ''http://example.com/'') \<and>
   pendingCallbacks (testPage media_env media_options ''http://example.com/''
                       (initial\<lparr>pendingCallbacks := [Finish]\<rparr>)) =
     [TestLink ''http://example.com/'' ''http://example.com/link'', Finish]"
proof -
  let ?p = "''http://example.com/''"
  let ?s = "initial\<lparr>pendingCallbacks := [Finish]\<rparr>"
  have u: "fixNonAsciiLink media_env ?p = ?p"
    by code_simp
  have a: "checkLinks media_options"
    by (simp add: media_options_def)
  have b: "requestFor media_env ?p = Request"
    by code_simp
  have c: "request media_env (length (requests initial)) GET (fixNonAsciiLink media_env ?p) True =
             Responded 0 (ok_response ?p) []"
    unfolding u by (simp add: media_env_def sample_env_def)
  have c': "request media_env (length (requests ?s)) GET (fixNonAsciiLink media_env ?p) True =
             Responded 0 (ok_response ?p) []"
    unfolding u by (simp add: media_env_def sample_env_def)
  have d: "is_2xx (ok_response ?p)"
    by code_simp
  have z: "concat
             (map (\<lambda>(element, attribute).
                     map (\<lambda>e. TestLink (href (ok_response ?p))
                                 (resolvedLink media_env (href (ok_response ?p)) attribute e))
                       (filter (\<lambda>e. fst e = element \<and> truthy (map_of (snd e) attribute) \<and>
                                     link_wanted media_env media_options (href (ok_response ?p))
                                       (resolvedLink media_env (href (ok_response ?p)) attribute e))
                          (cheerio_load media_env [])))
                [(''a'', ''href''), (''area'', ''href''), (''audio'', ''src''),
                 (''embed'', ''src''), (''iframe'', ''src''), (''img'', ''src''),
                 (''input'', ''src''), (''link'', ''href''), (''object'', ''data''),
                 (''script'', ''src''), (''source'', ''src''), (''track'', ''src''),
                 (''video'', ''src'')]) @
           pendingCallbacks ?s =
           [TestLink ?p ''http://example.com/link'', Finish]"
    by code_simp
  have "pendingCallbacks (testPage media_env media_options ?p ?s) =
          [TestLink ?p ''http://example.com/link'', Finish]"
    using tracked_pairs_are_checked[OF a disjI1[OF conjI[OF b c']] d]
    by (simp only: z)
  then show ?thesis using a b c d by blast
qed

section \<open>Local links\<close>

definition local_options :: options where
  "local_options = no_options\<lparr>noLocalLinks := True\<rparr>"

text \<open>
  Claim C8 says that a local-link issue is recorded exactly for the hosts \<open>localhost\<close>,
  127.0.0.0/8 and the spellings of \<open>::1\<close>. The pattern of line 172 anchors only its
  first alternative at the start and only its last at the end, and it is tested against
  \<open>req.uri.host\<close>, which carries the port: the host \<open>localhost.example.com\<close> is
  reported as local, and \<open>[::1]:8080\<close> is not.
\<close>

theorem localhost_pattern_misjudges_hosts:
  "url_host sample_env ''http://localhost.example.com/'' = Some ''localhost.example.com'' \<and>
   rx_test True localhost ''localhost.example.com'' \<and>
   issues (testLink sample_env local_options ''http://example.com/''
             ''http://localhost.example.com/'' False initial) =
     [(''http://example.com/'', ''Local link: http://localhost.example.com/'')] \<and>
   url_host sample_env ''http://[::1]:8080/'' = Some ''[::1]:8080'' \<and>
   \<not> rx_test True localhost ''[::1]:8080'' \<and>
   issues (testLink sample_env local_options ''http://example.com/''
             ''http://[::1]:8080/'' False initial) = []"
  by code_simp

section \<open>The order of the run\<close>

text \<open>
  \<open>in_order ps ts\<close>: the callbacks \<open>ts\<close> are, for each page of \<open>ps\<close> in turn,
  its \<open>testPage\<close> followed by link checks only, and then the last callback.
\<close>

fun in_order :: "string list \<Rightarrow> task list \<Rightarrow> bool" where
  "in_order [] ts = (ts = [Finish])"
| "in_order (p # ps) [] = False"
| "in_order (p # ps) (t # ts) = (t = TestPage p \<and> in_order ps (dropWhile is_link ts))"

lemma is_link_simps [simp]:
  "is_link (TestLink page link)" "\<not> is_link (TestPage page)" "\<not> is_link Finish"
  by (simp_all add: is_link_def)

lemma in_order_head: "in_order ps X \<Longrightarrow> dropWhile is_link X = X"
  by (cases ps; cases X) auto

lemma dropWhile_links:
  "list_all is_link new \<Longrightarrow> dropWhile is_link (new @ rest) = dropWhile is_link rest"
  by (simp add: list_all_iff)

lemma finish_sel [simp]:
  "pendingCallbacks (finish opts s) = pendingCallbacks s"
  "invoked (finish opts s) = invoked s"
  "thrown (finish opts s) = thrown s"
  "issues (finish opts s) = issues s"
  by (simp_all add: finish_def Let_def)

lemma finish_done: "\<exists>d. done_calls (finish opts s) = done_calls s @ [d]"
  by (simp add: finish_def Let_def)

lemma testLink_keeps [simp]:
  "invoked (testLink env opts page link r s) = invoked s"
  "done_calls (testLink env opts page link r s) = done_calls s"
  using steady_testLink[OF steady_refl, of s env opts page link r]
  by (simp_all add: steady_def grows_def)

lemma testPage_keeps [simp]:
  "invoked (testPage env opts page s) = invoked s"
  "done_calls (testPage env opts page s) = done_calls s"
  using testPage_grows[of s env opts page] by (simp_all add: grows_def)

lemma run_next_step:
  assumes "pendingCallbacks s = callback # rest"
    and "s1 = run_task env opts callback
                (s\<lparr>pendingCallbacks := rest, invoked := invoked s @ [callback]\<rparr>)"
  shows "run_next env opts s =
           (if callback = Finish \<or> thrown s1 \<noteq> None then s1 else run_next env opts s1)"
  using assms by (simp add: run_next.simps[of env opts s] Let_def)

text \<open>
  \<open>ordered_from env opts ps s\<close>: the run from \<open>s\<close> invokes the link checks at
  the head of the queue, then the pages \<open>ps\<close> in order, each followed by link checks
  only, then the last callback; it leaves the queue empty and calls \<open>done\<close> once.
\<close>

definition ordered_from :: "env \<Rightarrow> options \<Rightarrow> string list \<Rightarrow> state \<Rightarrow> bool" where
  "ordered_from env opts ps s =
     (\<exists>X. invoked (run_next env opts s) =
            invoked s @ takeWhile is_link (pendingCallbacks s) @ X \<and>
          in_order ps X \<and>
          pendingCallbacks (run_next env opts s) = [] \<and>
          (\<exists>d. done_calls (run_next env opts s) = done_calls s @ [d]))"

lemma ordered_Finish:
  assumes "pendingCallbacks s = Finish # rest"
    and "dropWhile is_link (pendingCallbacks s) = map TestPage ps @ [Finish]"
  shows "ordered_from env opts ps s"
proof -
  define s0 where "s0 = s\<lparr>pendingCallbacks := rest, invoked := invoked s @ [Finish]\<rparr>"
  have r: "run_next env opts s = finish opts s0"
    using assms(1) by (simp add: run_next.simps[of env opts s] run_task_def s0_def)
  have "Finish # rest = map TestPage ps @ [Finish]"
    using assms by simp
  then have e: "ps = []" "rest = []" by (cases ps; auto)+
  obtain d where d: "done_calls (finish opts s0) = done_calls s0 @ [d]"
    using finish_done by blast
  have i: "invoked (finish opts s0) = invoked s @ [Finish]"
    "pendingCallbacks (finish opts s0) = []" "done_calls s0 = done_calls s"
    using e by (simp_all add: s0_def)
  have t: "takeWhile is_link (pendingCallbacks s) = []"
    using assms(1) by simp
  show ?thesis
    unfolding ordered_from_def r t i(1) i(2) d i(3) using e(1) by auto
qed


lemma dropWhile_takeWhile_append:
  "dropWhile P (takeWhile P xs @ ys) = dropWhile P ys"
  by (induction xs) auto

lemma ordered_TestLink:
  assumes q: "pendingCallbacks s = TestLink page link # rest"
    and d: "dropWhile is_link (pendingCallbacks s) = map TestPage ps @ [Finish]"
    and nt: "thrown (run_next env opts s) = None"
    and s1: "s1 = testLink env opts page link False
                    (s\<lparr>pendingCallbacks := rest, invoked := invoked s @ [TestLink page link]\<rparr>)"
    and ih: "thrown s1 = None \<Longrightarrow> ordered_from env opts ps s1"
  shows "ordered_from env opts ps s"
proof -
  have step: "run_next env opts s = (if thrown s1 \<noteq> None then s1 else run_next env opts s1)"
    using q by (simp add: run_next.simps[of env opts s] run_task_def s1)
  have t: "thrown s1 = None"
    using nt step by (cases "thrown s1") auto
  have r: "run_next env opts s = run_next env opts s1"
    using step t by simp
  have p: "pendingCallbacks s1 = rest" "invoked s1 = invoked s @ [TestLink page link]"
    "done_calls s1 = done_calls s"
    by (simp_all add: s1)
  have k: "takeWhile is_link (pendingCallbacks s) = TestLink page link # takeWhile is_link rest"
    using q by simp
  from ih[OF t] show ?thesis
    unfolding ordered_from_def r p k by simp
qed

lemma ordered_TestPage:
  assumes q: "pendingCallbacks s = TestPage page # rest"
    and d: "dropWhile is_link (pendingCallbacks s) = map TestPage ps @ [Finish]"
    and nt: "thrown (run_next env opts s) = None"
    and s1: "s1 = testPage env opts page
                    (s\<lparr>pendingCallbacks := rest, invoked := invoked s @ [TestPage page]\<rparr>)"
    and ih: "\<And>ps'. thrown s1 = None \<Longrightarrow>
               dropWhile is_link (pendingCallbacks s1) = map TestPage ps' @ [Finish] \<Longrightarrow>
               ordered_from env opts ps' s1"
  shows "ordered_from env opts ps s"
proof -
  have step: "run_next env opts s = (if thrown s1 \<noteq> None then s1 else run_next env opts s1)"
    using q by (simp add: run_next.simps[of env opts s] run_task_def s1)
  have t: "thrown s1 = None"
    using nt step by (cases "thrown s1") auto
  have r: "run_next env opts s = run_next env opts s1"
    using step t by simp
  have "TestPage page # rest = map TestPage ps @ [Finish]"
    using d q by simp
  then obtain ps' where ps: "ps = page # ps'" "rest = map TestPage ps' @ [Finish]"
    by (cases ps) auto
  have dr: "dropWhile is_link rest = rest"
    unfolding ps(2) by (cases ps') simp_all
  obtain new where new: "list_all is_link new" "pendingCallbacks s1 = new @ rest"
    using testPage_queue[of env opts page
        "s\<lparr>pendingCallbacks := rest, invoked := invoked s @ [TestPage page]\<rparr>"]
    by (auto simp: s1)
  have p: "invoked s1 = invoked s @ [TestPage page]" "done_calls s1 = done_calls s"
    by (simp_all add: s1)
  have d1: "dropWhile is_link (pendingCallbacks s1) = map TestPage ps' @ [Finish]"
    unfolding new(2) dropWhile_links[OF new(1)] dr by (rule ps(2))
  obtain X dd where X: "invoked (run_next env opts s1) =
               invoked s1 @ takeWhile is_link (pendingCallbacks s1) @ X"
    "in_order ps' X" "pendingCallbacks (run_next env opts s1) = []"
    "done_calls (run_next env opts s1) = done_calls s1 @ [dd]"
    using ih[OF t d1] unfolding ordered_from_def by blast
  define Y where "Y = TestPage page # takeWhile is_link (pendingCallbacks s1) @ X"
  have "dropWhile is_link (takeWhile is_link (pendingCallbacks s1) @ X) = X"
    using in_order_head[OF X(2)] by (simp add: dropWhile_takeWhile_append)
  then have o: "in_order ps Y" using X(2) ps(1) by (simp add: Y_def)
  have k: "takeWhile is_link (pendingCallbacks s) = []"
    using q by simp
  have i: "invoked (run_next env opts s) = invoked s @ takeWhile is_link (pendingCallbacks s) @ Y"
    unfolding r X(1) p k Y_def by simp
  have e: "pendingCallbacks (run_next env opts s) = []"
    unfolding r by (rule X(3))
  have f: "done_calls (run_next env opts s) = done_calls s @ [dd]"
    unfolding r X(4) p by simp
  show ?thesis
    unfolding ordered_from_def using i o e f by blast
qed


lemma run_next_in_order:
  assumes "dropWhile is_link (pendingCallbacks s) = map TestPage ps @ [Finish]"
    and "thrown (run_next env opts s) = None"
  shows "ordered_from env opts ps s"
  using assms
proof (induction env opts s arbitrary: ps rule: run_next.induct)
  case (1 env opts s)
  show ?case
  proof (cases "pendingCallbacks s")
    case Nil
    then show ?thesis using "1.prems"(1) by simp
  next
    case (Cons callback rest)
    define s1 where "s1 = run_task env opts callback
                            (s\<lparr>pendingCallbacks := rest, invoked := invoked s @ [callback]\<rparr>)"
    have step: "run_next env opts s =
                  (if callback = Finish \<or> thrown s1 \<noteq> None then s1 else run_next env opts s1)"
      by (rule run_next_step[OF Cons s1_def])
    show ?thesis
    proof (cases callback)
      case Finish
      show ?thesis
        by (rule ordered_Finish[OF Cons[unfolded Finish] "1.prems"(1)])
    next
      case (TestLink page link)
      have f: "s1 = testLink env opts page link False
                      (s\<lparr>pendingCallbacks := rest, invoked := invoked s @ [TestLink page link]\<rparr>)"
        unfolding s1_def TestLink by (simp add: run_task_def)
      have p: "pendingCallbacks s1 = rest" by (simp add: f)
      have d: "dropWhile is_link (pendingCallbacks s1) = map TestPage ps @ [Finish]"
        unfolding p using "1.prems"(1) Cons TestLink by simp
      have ih: "thrown s1 = None \<Longrightarrow> ordered_from env opts ps s1"
      proof -
        assume t: "thrown s1 = None"
        then have c: "\<not> (callback = Finish \<or> thrown s1 \<noteq> None)" using TestLink by simp
        have "thrown (run_next env opts s1) = None"
          using "1.prems"(2) step c by simp
        then show "ordered_from env opts ps s1"
          using "1.IH"[OF Cons s1_def c d] by blast
      qed
      show ?thesis
        by (rule ordered_TestLink[OF Cons[unfolded TestLink] "1.prems"(1) "1.prems"(2) f ih])
    next
      case (TestPage page)
      have f: "s1 = testPage env opts page
                      (s\<lparr>pendingCallbacks := rest, invoked := invoked s @ [TestPage page]\<rparr>)"
        unfolding s1_def TestPage by (simp add: run_task_def)
      have ih: "\<And>ps'. thrown s1 = None \<Longrightarrow>
               dropWhile is_link (pendingCallbacks s1) = map TestPage ps' @ [Finish] \<Longrightarrow>
               ordered_from env opts ps' s1"
      proof -
        fix ps'
        assume t: "thrown s1 = None"
          and d: "dropWhile is_link (pendingCallbacks s1) = map TestPage ps' @ [Finish]"
        have c: "\<not> (callback = Finish \<or> thrown s1 \<noteq> None)" using TestPage t by simp
        have "thrown (run_next env opts s1) = None"
          using "1.prems"(2) step c by simp
        then show "ordered_from env opts ps' s1"
          using "1.IH"[OF Cons s1_def c d] by blast
      qed
      show ?thesis
        by (rule ordered_TestPage[OF Cons[unfolded TestPage] "1.prems"(1) "1.prems"(2) f ih])
    qed
  qed
qed

text \<open>
  The order of a run that no exception cuts short: the pages are fetched in the order
  given, each page's link checks are invoked between its fetch and the next page's, the
  last callback is invoked last with the queue empty, and \<open>done\<close> is called exactly
  once. (\<open>testPage_queue\<close> above: what a page queues is put ahead of all that was
  queued.)
\<close>

lemma run_in_order:
  assumes "thrown (checkPages env opts) = None"
  shows "in_order (map (normalise_pageUrl env) (pageUrls opts)) (invoked (checkPages env opts)) \<and>
         pendingCallbacks (checkPages env opts) = [] \<and>
         length (done_calls (checkPages env opts)) = 1"
proof -
  define ps where "ps = map (normalise_pageUrl env) (pageUrls opts)"
  define s where "s = initial\<lparr>pendingCallbacks := map TestPage ps @ [Finish]\<rparr>"
  have c: "checkPages env opts = run_next env opts s"
    by (simp add: checkPages_def s_def ps_def)
  have h: "dropWhile is_link (map TestPage ps @ [Finish]) = map TestPage ps @ [Finish]"
    by (cases ps) simp_all
  have k: "takeWhile is_link (pendingCallbacks s) = []"
    unfolding s_def by (cases ps) simp_all
  have d: "dropWhile is_link (pendingCallbacks s) = map TestPage ps @ [Finish]"
    unfolding s_def using h by simp
  have t: "thrown (run_next env opts s) = None"
    using assms unfolding c .
  have i: "invoked s = []" "done_calls s = []"
    by (simp_all add: s_def initial_def)
  obtain X dd where "invoked (run_next env opts s) =
               invoked s @ takeWhile is_link (pendingCallbacks s) @ X"
    "in_order ps X" "pendingCallbacks (run_next env opts s) = []"
    "done_calls (run_next env opts s) = done_calls s @ [dd]"
    using run_next_in_order[OF d t] unfolding ordered_from_def by blast
  then show ?thesis
    unfolding c k i ps_def[symmetric] by simp
qed

definition file_env :: env where
  "file_env =
     sample_env
       \<lparr>cheerio_load := (\<lambda>content. [(''a'', [(''href'', ''file:test/other.html'')])])\<rparr>"

definition file_options :: options where
  "file_options =
     no_options\<lparr>pageUrls := [''test/page.html''], checkLinks := True, noLocalLinks := True\<rparr>"

text \<open>
  Claim C2 says that the last callback runs exactly once, after everything else. With
  \<open>noLocalLinks\<close> set, the check of a \<open>file:\<close> link throws when it reads
  \<open>req.uri.host\<close>; the exception ends the run with the last callback still queued,
  and \<open>done\<close> is never called.
\<close>

theorem file_link_ends_run_without_done:
  "invoked (checkPages file_env file_options) =
     [TestPage ''file:test/page.html'', TestLink ''file:test/page.html'' ''file:test/other.html''] \<and>
   thrown (checkPages file_env file_options) =
     Some ''TypeError: Cannot read property host of undefined'' \<and>
   pendingCallbacks (checkPages file_env file_options) = [Finish] \<and>
   done_calls (checkPages file_env file_options) = [] \<and>
   length (done_calls (checkPages file_env file_options)) \<noteq> 1"
  by code_simp

end
